theory Spec2Isabelle
  imports Main "HOL-Library.Char_ord" "HOL-Library.List_Lexorder"
begin

section \<open>Strings: the Python string methods the module calls\<close>

text \<open>
  Strings are character lists. \<open>join\<close> is \<^verbatim>\<open>sep.join(parts)\<close>, \<open>str_rfind\<close> is
  \<^verbatim>\<open>s.rfind(sub)\<close> (the highest index at which \<open>sub\<close> starts, or \<open>-1\<close>), and
  \<open>str_replace\<close> is \<^verbatim>\<open>s.replace(old, new)\<close>: a scan from the left that replaces every
  occurrence it meets and goes on behind it.
\<close>

fun join :: "string \<Rightarrow> string list \<Rightarrow> string" where
  "join sep [] = []"
| "join sep [x] = x"
| "join sep (x # y # ys) = x @ sep @ join sep (y # ys)"

definition occurs_at :: "string \<Rightarrow> string \<Rightarrow> nat \<Rightarrow> bool" where
  "occurs_at sub s i = (take (length sub) (drop i s) = sub)"

definition str_rfind :: "string \<Rightarrow> string \<Rightarrow> int" where
  "str_rfind s sub =
     (case filter (occurs_at sub s) (rev [0..<Suc (length s)]) of
        [] \<Rightarrow> - 1
      | i # _ \<Rightarrow> int i)"

function str_replace :: "string \<Rightarrow> string \<Rightarrow> string \<Rightarrow> string" where
  "str_replace s old new =
     (if old = [] then new @ concat (map (\<lambda>c. c # new) s)
      else if s = [] then []
      else if take (length old) s = old
        then new @ str_replace (drop (length old) s) old new
      else hd s # str_replace (tl s) old new)"
  by pat_completeness auto
termination
  by (relation "measure (\<lambda>(s, old, new). length s)") auto

declare str_replace.simps [simp del]

section \<open>Records of the declarative base\<close>

text \<open>
  A model instance, as far as the module looks at it: the name of its table, the names of
  the declared columns in declaration order (\<^verbatim>\<open>model.__table__.columns\<close>), and
  \<^verbatim>\<open>getattr(model, name)\<close>, where \<open>None\<close> is Python's \<^verbatim>\<open>None\<close>.
\<close>

record 'v model =
  tablename :: string
  columns :: "string list"
  getattr :: "string \<Rightarrow> 'v option"

text \<open>
  \<^verbatim>\<open>dict(pairs)\<close>: a later pair overrides an earlier one with the same key.
\<close>

definition py_dict :: "('k \<times> 'a) list \<Rightarrow> ('k \<rightharpoonup> 'a)" where
  "py_dict pairs = foldl (\<lambda>d (k, v). d(k \<mapsto> v)) Map.empty pairs"

definition get_model_dict :: "'v model \<Rightarrow> (string \<rightharpoonup> 'v)" where
  "get_model_dict m =
     py_dict (concat (map (\<lambda>column. case getattr m column of
                                       None \<Rightarrow> []
                                     | Some v \<Rightarrow> [(column, v)]) (columns m)))"

section \<open>The insert statement and the compiler hook\<close>

text \<open>
  \<^verbatim>\<open>entry.__table__.insert(postgresql_append_string=...)\<close>: the target table and the
  keyword argument. The parameters are passed to \<^verbatim>\<open>session.execute\<close> beside it.
\<close>

record insert =
  ins_table :: string
  postgresql_append_string :: "string option"

definition table_insert :: "'v model \<Rightarrow> string option \<Rightarrow> insert" where
  "table_insert entry a = \<lparr>ins_table = tablename entry, postgresql_append_string = a\<rparr>"

definition ON_CONFLICT_DO_NOTHING :: string where
  "ON_CONFLICT_DO_NOTHING = ''ON CONFLICT DO NOTHING''"

text \<open>
  \<^verbatim>\<open>ON_CONFLICT_DO_UPDATE % dict(column=column, updates=update_string)\<close> for the template
  \<^verbatim>\<open>'ON CONFLICT (%(column)s) DO UPDATE SET %(updates)s'\<close>, the two fields filled in.
\<close>

definition ON_CONFLICT_DO_UPDATE :: "string \<Rightarrow> string \<Rightarrow> string" where
  "ON_CONFLICT_DO_UPDATE column updates =
     ''ON CONFLICT ('' @ column @ '') DO UPDATE SET '' @ updates"

definition RETURNING :: string where
  "RETURNING = ''RETURNING''"

text \<open>
  The hook registered for \<^verbatim>\<open>Insert\<close>. \<open>visit_insert\<close> is the compiler of the SQL toolkit
  (not part of the module) and is a parameter. A keyword argument that is \<^verbatim>\<open>None\<close> or
  the empty string is false in the \<^verbatim>\<open>if\<close>.
\<close>

definition append_string :: "(insert \<Rightarrow> string) \<Rightarrow> insert \<Rightarrow> string" where
  "append_string visit_insert ins =
     (let s = visit_insert ins in
      case postgresql_append_string ins of
        None \<Rightarrow> s
      | Some a \<Rightarrow>
          if a = [] then s
          else if str_rfind s RETURNING = - 1 then s @ '' '' @ a
          else str_replace s RETURNING ('' '' @ a @ '' RETURNING ''))"

section \<open>Errors, the session and the log\<close>

text \<open>
  Instances of \<^verbatim>\<open>Exception\<close>: any one, with its message, and the \<^verbatim>\<open>AttributeError\<close>
  that reading a missing attribute raises, with the name of the attribute.
\<close>

datatype py_exception = Exception string | AttributeError string

text \<open>
  What the module's calls leave behind, in the order they happen: the calls on the session,
  the calls on the logger.
\<close>

datatype 'v event =
    Execute insert "string \<rightharpoonup> 'v"
  | Flush
  | Commit
  | Rollback
  | Close
  | Expunge nat
  | LogError py_exception
  | LogException py_exception

text \<open>
  The session of the SQL toolkit is not part of the module; it is reduced to what the
  module's calls do to the unit of work. \<open>attached\<close> is the pending working set: the
  objects the session tracks, by identity (the position at which the cursor delivered
  them), each with its current in-memory state. \<open>flushed\<close> is what has been sent to the
  store in the open transaction, \<open>committed\<close> what the store holds for good. A flush
  sends the whole working set; a commit flushes first and makes what was sent permanent; a
  rollback discards what was sent and expires the working set; closing the session gives
  up the working set and an open transaction; \<^verbatim>\<open>expunge\<close> removes one object from the
  working set. A new session starts with an empty working set and nothing sent.
\<close>

record 'v world =
  attached :: "nat \<rightharpoonup> 'v model"
  flushed :: "nat \<rightharpoonup> 'v model"
  committed :: "nat \<rightharpoonup> 'v model"
  trace :: "'v event list"

definition new_world :: "'v world" where
  "new_world = \<lparr>attached = Map.empty, flushed = Map.empty, committed = Map.empty, trace = []\<rparr>"

definition session_new :: "'v world \<Rightarrow> 'v world" where
  "session_new w = w\<lparr>attached := Map.empty, flushed := Map.empty\<rparr>"

definition record_event :: "'v event \<Rightarrow> 'v world \<Rightarrow> 'v world" where
  "record_event e w = w\<lparr>trace := trace w @ [e]\<rparr>"

definition session_flush :: "'v world \<Rightarrow> 'v world" where
  "session_flush w = record_event Flush (w\<lparr>flushed := flushed w ++ attached w\<rparr>)"

text \<open>
  The sessions of the module are made with \<^verbatim>\<open>autoflush=True\<close>: before the session runs
  a query it flushes the working set by itself. This is not a call of the module and leaves
  no event.
\<close>

definition session_autoflush :: "'v world \<Rightarrow> 'v world" where
  "session_autoflush w = w\<lparr>flushed := flushed w ++ attached w\<rparr>"

definition session_commit :: "'v world \<Rightarrow> 'v world" where
  "session_commit w =
     record_event Commit
       (w\<lparr>committed := committed w ++ (flushed w ++ attached w), flushed := Map.empty\<rparr>)"

definition session_rollback :: "'v world \<Rightarrow> 'v world" where
  "session_rollback w =
     record_event Rollback (w\<lparr>attached := Map.empty, flushed := Map.empty\<rparr>)"

definition session_close :: "'v world \<Rightarrow> 'v world" where
  "session_close w = record_event Close (w\<lparr>attached := Map.empty, flushed := Map.empty\<rparr>)"

definition session_expunge :: "nat \<Rightarrow> 'v world \<Rightarrow> 'v world" where
  "session_expunge i w = record_event (Expunge i) (w\<lparr>attached := (attached w)(i := None)\<rparr>)"

definition logging_error :: "py_exception \<Rightarrow> 'v world \<Rightarrow> 'v world" where
  "logging_error err w = record_event (LogError err) w"

definition logging_exception :: "py_exception \<Rightarrow> 'v world \<Rightarrow> 'v world" where
  "logging_exception err w = record_event (LogException err) w"

text \<open>
  \<^verbatim>\<open>session.execute(statement, params)\<close>: the statement reaches the session, and the store
  (a parameter) answers with a result or raises.
\<close>

definition session_execute ::
  "(insert \<Rightarrow> (string \<rightharpoonup> 'v) \<Rightarrow> py_exception + 'r) \<Rightarrow> 'v world \<Rightarrow> insert \<Rightarrow> (string \<rightharpoonup> 'v)
     \<Rightarrow> (py_exception + 'r) \<times> 'v world" where
  "session_execute store session stmt params =
     (store stmt params, record_event (Execute stmt params) session)"

section \<open>The upsert functions\<close>

text \<open>
  Lines 55 to 57 of \<^verbatim>\<open>insert_or_update\<close>: the default for \<^verbatim>\<open>update_fields\<close> and the
  set difference. \<^verbatim>\<open>update_fields\<close> and \<^verbatim>\<open>exclude_fields\<close> are iterables of names.
\<close>

definition effective_update_fields ::
  "(string \<rightharpoonup> 'v) \<Rightarrow> string list option \<Rightarrow> string list \<Rightarrow> string set" where
  "effective_update_fields model_dict update_fields exclude_fields =
     (case update_fields of
        None \<Rightarrow> dom model_dict
      | Some names \<Rightarrow> set names) - set exclude_fields"

definition assignment :: "string \<Rightarrow> string" where
  "assignment key = key @ '' = %('' @ key @ '')s''"

text \<open>
  The order in which Python iterates over a set of strings is not fixed by the language;
  \<open>set_iter\<close>, the order of the iteration, is a parameter. An exception of
  \<^verbatim>\<open>session.execute\<close> leaves the function at once; the function returns \<^verbatim>\<open>None\<close>.
\<close>

definition insert_or_update ::
  "(insert \<Rightarrow> (string \<rightharpoonup> 'v) \<Rightarrow> py_exception + 'r) \<Rightarrow> (string set \<Rightarrow> string list) \<Rightarrow>
   'v world \<Rightarrow> 'v model \<Rightarrow> string \<Rightarrow> string list option \<Rightarrow> string list \<Rightarrow> bool
     \<Rightarrow> (py_exception + unit) \<times> 'v world" where
  "insert_or_update store set_iter session entry column update_fields exclude_fields flush =
     (let model_dict = get_model_dict entry;
          update_fields' = effective_update_fields model_dict update_fields exclude_fields;
          update_string = join '', '' (map assignment (set_iter update_fields'))
      in case session_execute store session
                (table_insert entry (Some (ON_CONFLICT_DO_UPDATE column update_string)))
                model_dict of
           (Inl err, session') \<Rightarrow> (Inl err, session')
         | (Inr result, session') \<Rightarrow>
             (Inr (), if flush then session_flush session' else session'))"

definition insert_or_ignore ::
  "(insert \<Rightarrow> (string \<rightharpoonup> 'v) \<Rightarrow> py_exception + 'r) \<Rightarrow> 'v world \<Rightarrow> 'v model \<Rightarrow> bool
     \<Rightarrow> (py_exception + 'r) \<times> 'v world" where
  "insert_or_ignore store session entry flush =
     (case session_execute store session
             (table_insert entry (Some ON_CONFLICT_DO_NOTHING)) (get_model_dict entry) of
        (Inl err, session') \<Rightarrow> (Inl err, session')
      | (Inr result, session') \<Rightarrow>
          (Inr result, if flush then session_flush session' else session'))"

section \<open>The connection manager\<close>

record 'e sessionmaker =
  bind :: 'e
  autocommit :: bool
  autoflush :: bool

record 'e db =
  db_engine :: "'e option"
  db_Session :: "'e sessionmaker option"
  db_AutoSession :: "'e sessionmaker option"

text \<open>
  \<^verbatim>\<open>_db\<close> is a \<^verbatim>\<open>threading.local()\<close>: every thread has a namespace of its own. The
  class body assigns \<^verbatim>\<open>None\<close> to the three attributes in the thread that imports the
  module; in any other thread the namespace starts without them. The state of the calling
  thread is therefore \<open>None\<close> (no attributes) or the three attributes, which are only
  ever assigned together.

  \<^verbatim>\<open>DB.init_db(force)\<close>. The guard \<^verbatim>\<open>force or cls._db.engine is None\<close> reads the
  attribute only when \<^verbatim>\<open>force\<close> is false, and reading a missing attribute raises
  \<^verbatim>\<open>AttributeError\<close>. \<open>default_engine\<close> is what the call \<^verbatim>\<open>default_engine()\<close> gives
  at this moment: an engine, or an exception, which leaves the function before anything
  is assigned.
\<close>

definition init_db ::
  "py_exception + 'e \<Rightarrow> bool \<Rightarrow> 'e db option \<Rightarrow> (py_exception + unit) \<times> 'e db option" where
  "init_db default_engine force d =
     (let create =
            (case default_engine of
               Inl err \<Rightarrow> (Inl err, d)
             | Inr e \<Rightarrow>
                 (Inr (),
                  Some \<lparr>db_engine = Some e,
                        db_Session = Some \<lparr>bind = e, autocommit = False, autoflush = True\<rparr>,
                        db_AutoSession = Some \<lparr>bind = e, autocommit = True, autoflush = True\<rparr>\<rparr>))
      in if force then create
         else (case d of
                 None \<Rightarrow> (Inl (AttributeError ''engine''), d)
               | Some namespace \<Rightarrow>
                   if db_engine namespace = None then create else (Inr (), d)))"

section \<open>The scoped session and the mapper\<close>

text \<open>
  \<^verbatim>\<open>DB.ctx\<close>, used in a \<^verbatim>\<open>with\<close> statement. The block is given the new session and
  ends with what it has produced so far and, if an exception left it, that exception. The
  generator behind the context manager catches the exception (\<^verbatim>\<open>except Exception\<close>, with
  no \<^verbatim>\<open>raise\<close> in the handler) and runs to its end, so the \<^verbatim>\<open>with\<close> statement
  suppresses the exception: nothing is raised to the code after the block.
\<close>

definition ctx ::
  "('v world \<Rightarrow> 'o \<times> py_exception option \<times> 'v world) \<Rightarrow> 'v world
     \<Rightarrow> 'o \<times> py_exception option \<times> 'v world" where
  "ctx block w =
     (case block (session_new w) of
        (out, Some err, session) \<Rightarrow>
          (out, None, session_close (session_rollback (logging_exception err session)))
      | (out, None, session) \<Rightarrow> (out, None, session_close session))"

text \<open>
  A transform is called on an entry. Before it returns a value or raises, it may change the
  entry in place, and it may make the session run a query (a lazy load of an attribute of
  the entry, a query through the session the entry belongs to), any number of times and in
  any order: the model gives these steps, each change with the state of the entry after
  it, and the outcome. A query makes the session flush first (\<^verbatim>\<open>autoflush=True\<close>).
\<close>

datatype 'v step = Change "'v model" | Load

type_synonym 'v transform = "'v model \<Rightarrow> 'v step list \<times> (py_exception + 'v model)"

fun run_step :: "nat \<Rightarrow> 'v step \<Rightarrow> 'v world \<Rightarrow> 'v world" where
  "run_step i (Change entry') w = w\<lparr>attached := (attached w)(i \<mapsto> entry')\<rparr>"
| "run_step i Load w = session_autoflush w"

fun run_steps :: "nat \<Rightarrow> 'v step list \<Rightarrow> 'v world \<Rightarrow> 'v world" where
  "run_steps i [] w = w"
| "run_steps i (step # steps) w = run_steps i steps (run_step i step w)"

text \<open>
  The state of an entry after the steps of a transform.
\<close>

fun entry_after :: "'v model \<Rightarrow> 'v step list \<Rightarrow> 'v model" where
  "entry_after entry [] = entry"
| "entry_after entry (Change entry' # steps) = entry_after entry' steps"
| "entry_after entry (Load # steps) = entry_after entry steps"

text \<open>
  The cursor delivers an entry: the session tracks it from then on.
\<close>

definition query_next :: "nat \<Rightarrow> 'v model \<Rightarrow> 'v world \<Rightarrow> 'v world" where
  "query_next i entry w = w\<lparr>attached := (attached w)(i \<mapsto> entry)\<rparr>"

text \<open>
  \<^verbatim>\<open>_wrapped\<close> of \<^verbatim>\<open>DBMapper._error_handler\<close>, for the entry with identity \<open>i\<close>. The
  \<^verbatim>\<open>except\<close> branch has no \<^verbatim>\<open>return\<close>: the call gives \<^verbatim>\<open>None\<close>.
\<close>

definition error_handler ::
  "'v transform \<Rightarrow> nat \<Rightarrow> 'v model \<Rightarrow> 'v world \<Rightarrow> 'v model option \<times> 'v world" where
  "error_handler fn i entry session =
     (case fn entry of
        (steps, Inr mapped) \<Rightarrow> (Some mapped, run_steps i steps session)
      | (steps, Inl err) \<Rightarrow>
          (None, session_expunge i (logging_error err (run_steps i steps session))))"

text \<open>
  The \<^verbatim>\<open>for\<close> loop of \<^verbatim>\<open>DBMapper.map\<close> over the entries the cursor delivers: the
  values it yields, in order.
\<close>

fun map_loop ::
  "'v transform \<Rightarrow> bool \<Rightarrow> nat \<Rightarrow> 'v model list \<Rightarrow> 'v world \<Rightarrow> 'v model option list \<times> 'v world" where
  "map_loop fn tee i [] session = ([], session)"
| "map_loop fn tee i (entry # rest) session =
     (case error_handler fn i entry (query_next i entry session) of
        (mapped_entry, session') \<Rightarrow>
          (case map_loop fn tee (Suc i) rest session' of
             (yielded, session'') \<Rightarrow> ((if tee then [mapped_entry] else []) @ yielded, session'')))"

text \<open>
  The body of \<^verbatim>\<open>DBMapper.map\<close> run to its end. The query delivers \<open>rows\<close> and then
  either ends or raises \<open>failure\<close> (a lost connection); only when it ends is
  \<^verbatim>\<open>session.commit()\<close> reached. The result is the yielded values, the exception raised to
  the consumer if any, and the world afterwards.
\<close>

definition map_to_end ::
  "'v transform \<Rightarrow> bool \<Rightarrow> 'v model list \<times> py_exception option \<Rightarrow> 'v world
     \<Rightarrow> 'v model option list \<times> py_exception option \<times> 'v world" where
  "map_to_end fn tee query w =
     ctx (\<lambda>session.
            case map_loop fn tee 0 (fst query) session of
              (yielded, session') \<Rightarrow>
                (case snd query of
                   Some err \<Rightarrow> (yielded, Some err, session')
                 | None \<Rightarrow> (yielded, None, session_commit session'))) w"

text \<open>
  \<^verbatim>\<open>DBMapper.map\<close> is a generator: its body runs only as far as the consumer asks.
  \<open>demand\<close> is \<open>None\<close> for a consumer that iterates to the end (a \<^verbatim>\<open>for\<close> loop,
  \<^verbatim>\<open>list\<close>), and \<open>Some n\<close> for one that asks for a value \<open>n\<close> times and then leaves
  the generator where it is. With \<open>n = 0\<close> the body never starts. With \<^verbatim>\<open>tee\<close> true the
  body stops at each \<^verbatim>\<open>yield\<close>: a consumer that asks at most as many times as there are
  rows gets a value each time, and the generator stays suspended inside the \<^verbatim>\<open>with\<close>
  block after that many rows, before everything that follows the loop (the result is the
  world at that moment). In every other case the body runs to its end.
\<close>

definition dbmapper_map ::
  "'v transform \<Rightarrow> bool \<Rightarrow> 'v model list \<times> py_exception option \<Rightarrow> nat option \<Rightarrow> 'v world
     \<Rightarrow> 'v model option list \<times> py_exception option \<times> 'v world" where
  "dbmapper_map fn tee query demand w =
     (case demand of
        None \<Rightarrow> map_to_end fn tee query w
      | Some 0 \<Rightarrow> ([], None, w)
      | Some (Suc n) \<Rightarrow>
          if tee \<and> Suc n \<le> length (fst query) then
            (case map_loop fn tee 0 (take (Suc n) (fst query)) (session_new w) of
               (yielded, session') \<Rightarrow> (yielded, None, session'))
          else map_to_end fn tee query w)"

text \<open>
  \<^verbatim>\<open>DBMapper.each\<close>: \<^verbatim>\<open>list(self.map(fun, tee=False))\<close>, which iterates to the end.
\<close>

definition dbmapper_each ::
  "'v transform \<Rightarrow> 'v model list \<times> py_exception option \<Rightarrow> 'v world
     \<Rightarrow> py_exception option \<times> 'v world" where
  "dbmapper_each fn query w = snd (dbmapper_map fn False query None w)"

section \<open>Example inputs\<close>

text \<open>
  The table \<^verbatim>\<open>widgets(id, name, qty)\<close> of the specification's scenarios, with integer
  values; a store that accepts every statement; the alphabetical order as one possible
  order of iteration over a set of names.
\<close>

definition widget :: "int model" where
  "widget = \<lparr>tablename = ''widgets'', columns = [''id'', ''name'', ''qty''],
             getattr = [''id'' \<mapsto> 1, ''qty'' \<mapsto> 5]\<rparr>"

definition widget_named :: "int model" where
  "widget_named = \<lparr>tablename = ''widgets'', columns = [''id'', ''name'', ''qty''],
                   getattr = [''id'' \<mapsto> 1, ''name'' \<mapsto> 7, ''qty'' \<mapsto> 5]\<rparr>"

definition widget_id_only :: "int model" where
  "widget_id_only = \<lparr>tablename = ''widgets'', columns = [''id'', ''name'', ''qty''],
                     getattr = [''id'' \<mapsto> 1]\<rparr>"

definition accepting_store :: "insert \<Rightarrow> (string \<rightharpoonup> int) \<Rightarrow> py_exception + nat" where
  "accepting_store stmt params = Inr 1"

definition alphabetical :: "string set \<Rightarrow> string list" where
  "alphabetical S = sorted_list_of_set S"

text \<open>
  An insert with the clause of \<^verbatim>\<open>insert_or_ignore\<close>, and two compilers standing for
  \<^verbatim>\<open>visit_insert\<close>: one for an insert that returns nothing, one for an insert that
  returns the key.
\<close>

definition insert_ignore_widgets :: insert where
  "insert_ignore_widgets =
     \<lparr>ins_table = ''widgets'', postgresql_append_string = Some ''ON CONFLICT DO NOTHING''\<rparr>"

definition compile_plain :: "insert \<Rightarrow> string" where
  "compile_plain ins = ''INSERT INTO '' @ ins_table ins @ '' (id) VALUES (%(id)s)''"

definition compile_returning :: "insert \<Rightarrow> string" where
  "compile_returning ins =
     ''INSERT INTO '' @ ins_table ins @ '' (id) VALUES (%(id)s) RETURNING '' @ ins_table ins @ ''.id''"

text \<open>
  A database object before \<^verbatim>\<open>init_db\<close> has run, with engines numbered.
\<close>

definition no_db :: "nat db" where
  "no_db = \<lparr>db_engine = None, db_Session = None, db_AutoSession = None\<rparr>"

text \<open>
  A transform that sets \<^verbatim>\<open>name\<close> and then increments \<^verbatim>\<open>qty\<close>; the increment raises
  when \<^verbatim>\<open>qty\<close> is \<^verbatim>\<open>None\<close>, after the entry has already been changed. The second
  transform does the same and makes the session run a query between the two.
\<close>

definition restock :: "int transform" where
  "restock entry =
     (let touched = entry\<lparr>getattr := (getattr entry)(''name'' \<mapsto> 0)\<rparr> in
      case getattr entry ''qty'' of
        None \<Rightarrow> ([Change touched], Inl (Exception ''qty is None''))
      | Some q \<Rightarrow>
          (let entry' = touched\<lparr>getattr := (getattr touched)(''qty'' \<mapsto> q + 1)\<rparr>
           in ([Change touched, Change entry'], Inr entry')))"

definition restock_after_lookup :: "int transform" where
  "restock_after_lookup entry =
     (let touched = entry\<lparr>getattr := (getattr entry)(''name'' \<mapsto> 0)\<rparr> in
      case getattr entry ''qty'' of
        None \<Rightarrow> ([Change touched, Load], Inl (Exception ''qty is None''))
      | Some q \<Rightarrow>
          (let entry' = touched\<lparr>getattr := (getattr touched)(''qty'' \<mapsto> q + 1)\<rparr>
           in ([Change touched, Load, Change entry'], Inr entry')))"

text \<open>
  A compiler standing for \<^verbatim>\<open>visit_insert\<close> on a table whose one column is named
  \<^verbatim>\<open>RETURNING_flag\<close>: the identifier is quoted, the parameter is not, and the statement has
  no \<^verbatim>\<open>RETURNING\<close> clause.
\<close>

definition compile_flagged :: "insert \<Rightarrow> string" where
  "compile_flagged ins =
     ''INSERT INTO '' @ ins_table ins @ '' ('' @ [CHR 0x22] @ ''RETURNING_flag'' @ [CHR 0x22]
       @ '') VALUES (%(RETURNING_flag)s)''"

section \<open>The mapping of a record\<close>

lemma py_dict_foldl:
  "foldl (\<lambda>d (k, v). d(k \<mapsto> v)) d0 pairs = d0 ++ map_of (rev pairs)"
  by (induction pairs arbitrary: d0) (auto simp: map_add_def fun_eq_iff split: option.splits)

lemma py_dict_map_of: "py_dict pairs = map_of (rev pairs)"
  by (simp add: py_dict_def py_dict_foldl)

lemma present_pairs_set:
  "set (concat (map (\<lambda>column. case getattr m column of None \<Rightarrow> [] | Some v \<Rightarrow> [(column, v)]) cs))
     = {(c, v). c \<in> set cs \<and> getattr m c = Some v}"
  by (induction cs) (auto split: option.splits)

lemma get_model_dict_lookup:
  "get_model_dict m c = (if c \<in> set (columns m) then getattr m c else None)"
proof -
  let ?ps = "rev (concat (map (\<lambda>column. case getattr m column of
                                 None \<Rightarrow> [] | Some v \<Rightarrow> [(column, v)]) (columns m)))"
  have eq: "get_model_dict m = map_of ?ps"
    by (simp add: get_model_dict_def py_dict_map_of)
  have s: "set ?ps = {(c, v). c \<in> set (columns m) \<and> getattr m c = Some v}"
    by (simp only: set_rev present_pairs_set)
  show ?thesis
  proof (cases "map_of ?ps c")
    case None
    then have "c \<notin> fst ` set ?ps" by (simp add: map_of_eq_None_iff)
    with s have "c \<notin> set (columns m) \<or> getattr m c = None" by force
    with None eq show ?thesis by auto
  next
    case (Some v)
    then have "(c, v) \<in> set ?ps" by (rule map_of_SomeD)
    with s have "c \<in> set (columns m) \<and> getattr m c = Some v" by auto
    with Some eq show ?thesis by simp
  qed
qed

lemma dom_get_model_dict:
  "dom (get_model_dict m) = {c \<in> set (columns m). getattr m c \<noteq> None}"
  by (auto simp: dom_def get_model_dict_lookup)

text \<open>
  Claim C6. For every record, the mapping that \<^verbatim>\<open>get_model_dict\<close> returns has as keys
  exactly the declared columns whose attribute is not \<^verbatim>\<open>None\<close>, each bound to the
  attribute's value; a column that is unset never appears, and the size of the mapping is
  the number of present columns.
\<close>

theorem get_model_dict_present_columns:
  "dom (get_model_dict m) = {c \<in> set (columns m). getattr m c \<noteq> None}
   \<and> (\<forall>c v. get_model_dict m c = Some v \<longleftrightarrow> c \<in> set (columns m) \<and> getattr m c = Some v)
   \<and> card (dom (get_model_dict m))
       = length (remdups (filter (\<lambda>c. getattr m c \<noteq> None) (columns m)))"
proof (intro conjI)
  show "dom (get_model_dict m) = {c \<in> set (columns m). getattr m c \<noteq> None}"
    by (rule dom_get_model_dict)
  show "\<forall>c v. get_model_dict m c = Some v \<longleftrightarrow> c \<in> set (columns m) \<and> getattr m c = Some v"
    by (simp add: get_model_dict_lookup)
  show "card (dom (get_model_dict m))
          = length (remdups (filter (\<lambda>c. getattr m c \<noteq> None) (columns m)))"
    by (simp add: dom_get_model_dict flip: List.card_set)
qed

section \<open>Placement of the conflict clause\<close>

text \<open>
  \<^verbatim>\<open>rfind\<close> gives \<open>-1\<close> exactly when the word does not occur in the text, and
  \<^verbatim>\<open>replace\<close> leaves a text without the word as it is. Two occurrences of the word
  \<^verbatim>\<open>RETURNING\<close> cannot overlap, so the scan of \<^verbatim>\<open>replace\<close> meets every occurrence:
  around any occurrence the text is replaced piece by piece.
\<close>

lemma occurs_at_iff:
  "occurs_at sub s i \<and> i \<le> length s \<longleftrightarrow> (\<exists>pre post. s = pre @ sub @ post \<and> length pre = i)"
proof
  assume a: "occurs_at sub s i \<and> i \<le> length s"
  then have "take (length sub) (drop i s) = sub" by (simp add: occurs_at_def)
  then have "drop i s = sub @ drop (length sub) (drop i s)"
    by (metis append_take_drop_id)
  then have "s = take i s @ sub @ drop (length sub) (drop i s)"
    by (metis append_take_drop_id)
  moreover from a have "length (take i s) = i" by simp
  ultimately show "\<exists>pre post. s = pre @ sub @ post \<and> length pre = i" by blast
next
  assume "\<exists>pre post. s = pre @ sub @ post \<and> length pre = i"
  then obtain pre post where "s = pre @ sub @ post" "length pre = i" by blast
  then show "occurs_at sub s i \<and> i \<le> length s" by (simp add: occurs_at_def)
qed

lemma str_rfind_minus_one:
  "str_rfind s sub = - 1 \<longleftrightarrow> \<not> (\<exists>pre post. s = pre @ sub @ post)"
proof -
  have "str_rfind s sub = - 1 \<longleftrightarrow> filter (occurs_at sub s) (rev [0..<Suc (length s)]) = []"
    by (simp add: str_rfind_def split: list.splits)
  also have "\<dots> \<longleftrightarrow> (\<forall>i\<le>length s. \<not> occurs_at sub s i)"
    by (auto simp: filter_empty_conv less_Suc_eq_le)
  also have "\<dots> \<longleftrightarrow> \<not> (\<exists>i. occurs_at sub s i \<and> i \<le> length s)"
    by blast
  also have "\<dots> \<longleftrightarrow> \<not> (\<exists>pre post. s = pre @ sub @ post)"
    unfolding occurs_at_iff by blast
  finally show ?thesis .
qed

lemma str_replace_Nil: "old \<noteq> [] \<Longrightarrow> str_replace [] old new = []"
  by (simp add: str_replace.simps)

lemma str_replace_match:
  "old \<noteq> [] \<Longrightarrow> take (length old) s = old \<Longrightarrow>
     str_replace s old new = new @ str_replace (drop (length old) s) old new"
  by (subst str_replace.simps) auto

lemma str_replace_skip:
  "old \<noteq> [] \<Longrightarrow> take (length old) (c # s) \<noteq> old \<Longrightarrow>
     str_replace (c # s) old new = c # str_replace s old new"
  by (subst str_replace.simps) simp

lemma str_replace_absent:
  "old \<noteq> [] \<Longrightarrow> \<not> (\<exists>pre post. s = pre @ old @ post) \<Longrightarrow> str_replace s old new = s"
proof (induction s)
  case Nil
  then show ?case by (simp add: str_replace_Nil)
next
  case (Cons c s)
  have "take (length old) (c # s) \<noteq> old"
  proof
    assume "take (length old) (c # s) = old"
    then have "c # s = [] @ old @ drop (length old) (c # s)"
      by (metis append_Nil append_take_drop_id)
    with Cons.prems(2) show False by blast
  qed
  moreover have "\<not> (\<exists>pre post. s = pre @ old @ post)"
  proof
    assume "\<exists>pre post. s = pre @ old @ post"
    then obtain pre post where "s = pre @ old @ post" by blast
    then have "c # s = (c # pre) @ old @ post" by simp
    with Cons.prems(2) show False by blast
  qed
  ultimately show ?case
    using Cons.IH Cons.prems(1) by (simp add: str_replace_skip)
qed

lemma no_border_overlap:
  assumes bf: "\<And>d. 0 < d \<Longrightarrow> d < length old \<Longrightarrow> take (length old - d) old \<noteq> drop d old"
    and m: "take (length old) (pre @ old @ post) = old"
    and p: "pre \<noteq> []"
  shows "length old \<le> length pre"
proof (rule ccontr)
  assume "\<not> length old \<le> length pre"
  then have d: "length pre < length old" by simp
  from p have d0: "0 < length pre" by simp
  from m d have "pre @ take (length old - length pre) old = old"
    by simp
  then have "drop (length pre) (pre @ take (length old - length pre) old) = drop (length pre) old"
    by simp
  then have "take (length old - length pre) old = drop (length pre) old"
    by simp
  with bf [OF d0 d] show False by simp
qed

lemma str_replace_split:
  assumes ne: "old \<noteq> []"
    and bf: "\<And>d. 0 < d \<Longrightarrow> d < length old \<Longrightarrow> take (length old - d) old \<noteq> drop d old"
  shows "str_replace (pre @ old @ post) old new
           = str_replace pre old new @ new @ str_replace post old new"
proof (induction pre rule: length_induct)
  case (1 pre)
  show ?case
  proof (cases pre)
    case Nil
    have "take (length old) (old @ post) = old" by simp
    with ne have "str_replace (old @ post) old new = new @ str_replace post old new"
      by (simp add: str_replace_match)
    with Nil ne show ?thesis by (simp add: str_replace_Nil)
  next
    case (Cons c pre')
    show ?thesis
    proof (cases "take (length old) (pre @ old @ post) = old")
      case True
      with bf Cons have le: "length old \<le> length pre"
        by (intro no_border_overlap [where post = post]) auto
      with True have tp: "take (length old) pre = old" by simp
      define rest where "rest = drop (length old) pre"
      have pre: "pre = old @ rest"
        using tp by (metis append_take_drop_id rest_def)
      have "0 < length old"
        using ne by simp
      moreover have "0 < length pre"
        using Cons by simp
      ultimately have shorter: "length rest < length pre"
        by (simp add: rest_def)
      have "str_replace (pre @ old @ post) old new
              = new @ str_replace (drop (length old) (pre @ old @ post)) old new"
        using ne True by (rule str_replace_match)
      also have "drop (length old) (pre @ old @ post) = rest @ old @ post"
        using le by (simp add: rest_def)
      also have "str_replace (rest @ old @ post) old new
                   = str_replace rest old new @ new @ str_replace post old new"
        using 1 shorter by blast
      finally have l: "str_replace (pre @ old @ post) old new
              = new @ str_replace rest old new @ new @ str_replace post old new" .
      have "str_replace pre old new = new @ str_replace rest old new"
        using ne tp by (simp add: str_replace_match rest_def)
      with l show ?thesis by simp
    next
      case False
      have np: "take (length old) pre \<noteq> old"
      proof
        assume e: "take (length old) pre = old"
        then have "length (take (length old) pre) = length old"
          by (rule arg_cong)
        then have "length old \<le> length pre"
          by simp
        with e have "take (length old) (pre @ old @ post) = old" by simp
        with False show False by simp
      qed
      have "str_replace (pre @ old @ post) old new
              = c # str_replace (pre' @ old @ post) old new"
        using ne False Cons by (simp add: str_replace_skip)
      also have "str_replace (pre' @ old @ post) old new
                   = str_replace pre' old new @ new @ str_replace post old new"
        using 1 Cons by simp
      finally have l: "str_replace (pre @ old @ post) old new
              = c # str_replace pre' old new @ new @ str_replace post old new" .
      have "str_replace pre old new = c # str_replace pre' old new"
        using ne np Cons by (simp add: str_replace_skip)
      with l show ?thesis by simp
    qed
  qed
qed

lemma RETURNING_border_free:
  assumes "0 < d" and "d < length RETURNING"
  shows "take (length RETURNING - d) RETURNING \<noteq> drop d RETURNING"
proof -
  from assms have "d \<in> {1, 2, 3, 4, 5, 6, 7, 8}"
    by (auto simp: RETURNING_def)
  then show ?thesis
    by (auto simp: RETURNING_def)
qed

lemma RETURNING_nonempty: "RETURNING \<noteq> []"
  by (simp add: RETURNING_def)

lemma append_string_absent:
  assumes "postgresql_append_string ins = Some clause" and "clause \<noteq> []"
    and "\<not> (\<exists>pre post. visit_insert ins = pre @ RETURNING @ post)"
  shows "append_string visit_insert ins = visit_insert ins @ '' '' @ clause"
  using assms by (simp add: append_string_def Let_def str_rfind_minus_one)

lemma append_string_present:
  assumes "postgresql_append_string ins = Some clause" and "clause \<noteq> []"
    and "visit_insert ins = pre @ RETURNING @ post"
  shows "append_string visit_insert ins
           = str_replace pre RETURNING ('' '' @ clause @ '' RETURNING '')
             @ ('' '' @ clause @ '' RETURNING '')
             @ str_replace post RETURNING ('' '' @ clause @ '' RETURNING '')"
proof -
  have "\<exists>pre post. visit_insert ins = pre @ RETURNING @ post"
    using assms(3) by blast
  then have "str_rfind (visit_insert ins) RETURNING \<noteq> - 1"
    by (simp only: str_rfind_minus_one simp_thms)
  with assms(1,2) have "append_string visit_insert ins
      = str_replace (visit_insert ins) RETURNING ('' '' @ clause @ '' RETURNING '')"
    by (simp add: append_string_def Let_def)
  also have "\<dots> = str_replace (pre @ RETURNING @ post) RETURNING ('' '' @ clause @ '' RETURNING '')"
    by (simp only: assms(3))
  also have "\<dots> = str_replace pre RETURNING ('' '' @ clause @ '' RETURNING '')
             @ ('' '' @ clause @ '' RETURNING '')
             @ str_replace post RETURNING ('' '' @ clause @ '' RETURNING '')"
    using RETURNING_nonempty RETURNING_border_free by (rule str_replace_split)
  finally show ?thesis .
qed

lemma rfind_plain: "str_rfind ''INSERT INTO widgets (id) VALUES (%(id)s)'' ''RETURNING'' = - 1"
  by code_simp

lemma rfind_pre: "str_rfind ''INSERT INTO widgets (id) VALUES (%(id)s) '' ''RETURNING'' = - 1"
  by code_simp

lemma rfind_post: "str_rfind '' widgets.id'' ''RETURNING'' = - 1"
  by code_simp

lemma plain_has_no_RETURNING:
  "\<not> (\<exists>pre post. ''INSERT INTO widgets (id) VALUES (%(id)s)'' = pre @ ''RETURNING'' @ post)"
  using rfind_plain unfolding str_rfind_minus_one .

lemma pre_has_no_RETURNING:
  "\<not> (\<exists>p q. ''INSERT INTO widgets (id) VALUES (%(id)s) '' = p @ ''RETURNING'' @ q)"
  using rfind_pre unfolding str_rfind_minus_one .

lemma post_has_no_RETURNING:
  "\<not> (\<exists>p q. '' widgets.id'' = p @ ''RETURNING'' @ q)"
  using rfind_post unfolding str_rfind_minus_one .

text \<open>
  Claim C4, as amended. The hook looks for the letters \<^verbatim>\<open>RETURNING\<close> in the compiled
  text, wherever they stand. For every insert with a non-empty conflict clause: when the
  compiled text does not contain the letters at all (not as the keyword, not inside an
  identifier or the name of a parameter), the hook appends a space and the clause behind
  the whole statement; when it contains them once, as the keyword, the result is the text
  before the keyword, the clause between single spaces, the keyword, a space and the text
  behind the keyword. In general the clause is put in this way before the letters at every
  place where they occur, and nothing is appended.
\<close>

theorem append_string_placement:
  assumes "postgresql_append_string ins = Some clause" and "clause \<noteq> []"
  shows "(\<not> (\<exists>pre post. visit_insert ins = pre @ ''RETURNING'' @ post) \<longrightarrow>
            append_string visit_insert ins = visit_insert ins @ '' '' @ clause)
       \<and> (\<forall>pre post. visit_insert ins = pre @ ''RETURNING'' @ post \<longrightarrow>
            append_string visit_insert ins
              = str_replace pre ''RETURNING'' ('' '' @ clause @ '' RETURNING '')
                @ '' '' @ clause @ '' RETURNING ''
                @ str_replace post ''RETURNING'' ('' '' @ clause @ '' RETURNING ''))
       \<and> (\<forall>pre post. visit_insert ins = pre @ ''RETURNING'' @ post
              \<and> \<not> (\<exists>p q. pre = p @ ''RETURNING'' @ q)
              \<and> \<not> (\<exists>p q. post = p @ ''RETURNING'' @ q) \<longrightarrow>
            append_string visit_insert ins = pre @ '' '' @ clause @ '' RETURNING '' @ post)"
proof (intro conjI allI impI)
  assume "\<not> (\<exists>pre post. visit_insert ins = pre @ ''RETURNING'' @ post)"
  then have "\<not> (\<exists>pre post. visit_insert ins = pre @ RETURNING @ post)"
    by (simp add: RETURNING_def)
  with assms show "append_string visit_insert ins = visit_insert ins @ '' '' @ clause"
    by (rule append_string_absent)
next
  fix pre post
  assume "visit_insert ins = pre @ ''RETURNING'' @ post"
  then have "visit_insert ins = pre @ RETURNING @ post"
    by (simp add: RETURNING_def)
  with assms have "append_string visit_insert ins
           = str_replace pre RETURNING ('' '' @ clause @ '' RETURNING '')
             @ ('' '' @ clause @ '' RETURNING '')
             @ str_replace post RETURNING ('' '' @ clause @ '' RETURNING '')"
    by (rule append_string_present)
  then show "append_string visit_insert ins
              = str_replace pre ''RETURNING'' ('' '' @ clause @ '' RETURNING '')
                @ '' '' @ clause @ '' RETURNING ''
                @ str_replace post ''RETURNING'' ('' '' @ clause @ '' RETURNING '')"
    by (simp add: RETURNING_def)
next
  fix pre post
  assume a: "visit_insert ins = pre @ ''RETURNING'' @ post
              \<and> \<not> (\<exists>p q. pre = p @ ''RETURNING'' @ q)
              \<and> \<not> (\<exists>p q. post = p @ ''RETURNING'' @ q)"
  then have v: "visit_insert ins = pre @ RETURNING @ post"
    and np: "\<not> (\<exists>p q. pre = p @ RETURNING @ q)"
    and nq: "\<not> (\<exists>p q. post = p @ RETURNING @ q)"
    by (simp_all add: RETURNING_def)
  from assms v have "append_string visit_insert ins
           = str_replace pre RETURNING ('' '' @ clause @ '' RETURNING '')
             @ ('' '' @ clause @ '' RETURNING '')
             @ str_replace post RETURNING ('' '' @ clause @ '' RETURNING '')"
    by (rule append_string_present)
  moreover have "str_replace pre RETURNING ('' '' @ clause @ '' RETURNING '') = pre"
    using RETURNING_nonempty np by (rule str_replace_absent)
  moreover have "str_replace post RETURNING ('' '' @ clause @ '' RETURNING '') = post"
    using RETURNING_nonempty nq by (rule str_replace_absent)
  ultimately show "append_string visit_insert ins = pre @ '' '' @ clause @ '' RETURNING '' @ post"
    by simp
qed

theorem append_string_placement_witness:
  "append_string compile_plain insert_ignore_widgets
     = ''INSERT INTO widgets (id) VALUES (%(id)s) ON CONFLICT DO NOTHING''
   \<and> append_string compile_returning insert_ignore_widgets
     = ''INSERT INTO widgets (id) VALUES (%(id)s)  ON CONFLICT DO NOTHING RETURNING  widgets.id''"
proof -
  have c: "postgresql_append_string insert_ignore_widgets = Some ''ON CONFLICT DO NOTHING''"
    by (simp add: insert_ignore_widgets_def)
  have n: "''ON CONFLICT DO NOTHING'' \<noteq> []"
    by simp
  note plain = append_string_placement [OF c n, of compile_plain]
  note returning = append_string_placement [OF c n, of compile_returning]
  have p: "compile_plain insert_ignore_widgets = ''INSERT INTO widgets (id) VALUES (%(id)s)''"
    by (simp add: compile_plain_def insert_ignore_widgets_def)
  have "\<not> (\<exists>pre post. compile_plain insert_ignore_widgets = pre @ ''RETURNING'' @ post)"
    unfolding p by (rule plain_has_no_RETURNING)
  with conjunct1 [OF plain]
  have a: "append_string compile_plain insert_ignore_widgets
             = compile_plain insert_ignore_widgets @ '' '' @ ''ON CONFLICT DO NOTHING''"
    by (rule mp)
  have r: "compile_returning insert_ignore_widgets
             = ''INSERT INTO widgets (id) VALUES (%(id)s) '' @ ''RETURNING'' @ '' widgets.id''"
    by (simp add: compile_returning_def insert_ignore_widgets_def)
  note np = pre_has_no_RETURNING
  note nq = post_has_no_RETURNING
  have b: "append_string compile_returning insert_ignore_widgets
             = ''INSERT INTO widgets (id) VALUES (%(id)s) '' @ '' '' @ ''ON CONFLICT DO NOTHING''
               @ '' RETURNING '' @ '' widgets.id''"
    by (rule mp [OF spec [OF spec [OF conjunct2 [OF conjunct2 [OF returning]]]]])
       (intro conjI r np nq)
  from a b show ?thesis
    by (simp add: p)
qed

lemma flagged_text:
  "compile_flagged insert_ignore_widgets
     = ''INSERT INTO widgets ('' @ [CHR 0x22] @ ''RETURNING_flag'' @ [CHR 0x22]
       @ '') VALUES (%(RETURNING_flag)s)''"
  by (simp add: compile_flagged_def insert_ignore_widgets_def)

lemma flagged_spliced:
  "append_string compile_flagged insert_ignore_widgets
     = ''INSERT INTO widgets ('' @ [CHR 0x22] @ '' ON CONFLICT DO NOTHING RETURNING _flag''
       @ [CHR 0x22] @ '') VALUES (%( ON CONFLICT DO NOTHING RETURNING _flag)s)''"
  by code_simp

text \<open>
  The claim C4 as stated fails for a statement that has no \<^verbatim>\<open>RETURNING\<close> clause but an
  identifier with these letters in its name: the conflict clause is not appended after the
  statement but put inside the identifier and inside the name of its parameter.
\<close>

theorem conflict_clause_inside_identifier:
  "append_string compile_flagged insert_ignore_widgets
     = ''INSERT INTO widgets ('' @ [CHR 0x22] @ '' ON CONFLICT DO NOTHING RETURNING _flag''
       @ [CHR 0x22] @ '') VALUES (%( ON CONFLICT DO NOTHING RETURNING _flag)s)''
   \<and> append_string compile_flagged insert_ignore_widgets
     \<noteq> compile_flagged insert_ignore_widgets @ '' '' @ ''ON CONFLICT DO NOTHING''"
  unfolding flagged_spliced flagged_text by simp

section \<open>What the upsert functions execute\<close>

text \<open>
  Both functions run to the call of \<^verbatim>\<open>session.execute\<close> whatever their arguments are; the
  two lemmas below give the statement that reaches the session, the result, and the world
  afterwards.
\<close>

lemma insert_or_update_run:
  "insert_or_update store set_iter session entry column update_fields exclude_fields flush =
     (let params = get_model_dict entry;
          stmt = \<lparr>ins_table = tablename entry,
                  postgresql_append_string = Some (ON_CONFLICT_DO_UPDATE column
                    (join '', '' (map assignment
                       (set_iter (effective_update_fields params update_fields exclude_fields)))))\<rparr>
      in (case store stmt params of Inl err \<Rightarrow> Inl err | Inr r \<Rightarrow> Inr (),
          session\<lparr>trace := trace session @ [Execute stmt params]
                     @ (if flush \<and> \<not> isl (store stmt params) then [Flush] else []),
                   flushed := (if flush \<and> \<not> isl (store stmt params)
                               then flushed session ++ attached session else flushed session)\<rparr>))"
  by (cases session)
     (auto simp: insert_or_update_def session_execute_def table_insert_def Let_def record_event_def
        session_flush_def split: sum.splits)

lemma insert_or_ignore_run:
  "insert_or_ignore store session entry flush =
     (let params = get_model_dict entry;
          stmt = \<lparr>ins_table = tablename entry,
                  postgresql_append_string = Some ON_CONFLICT_DO_NOTHING\<rparr>
      in (store stmt params,
          session\<lparr>trace := trace session @ [Execute stmt params]
                     @ (if flush \<and> \<not> isl (store stmt params) then [Flush] else []),
                   flushed := (if flush \<and> \<not> isl (store stmt params)
                               then flushed session ++ attached session else flushed session)\<rparr>))"
  by (cases session)
     (auto simp: insert_or_ignore_def session_execute_def table_insert_def Let_def record_event_def
        session_flush_def split: sum.splits)

lemma effective_update_fields_eq:
  "effective_update_fields (get_model_dict entry) update_fields exclude_fields =
     (case update_fields of
        None \<Rightarrow> {c \<in> set (columns entry). getattr entry c \<noteq> None}
      | Some names \<Rightarrow> set names) - set exclude_fields"
  by (simp add: effective_update_fields_def dom_get_model_dict split: option.splits)

lemma assignment_fun: "assignment = (\<lambda>col. col @ '' = %('' @ col @ '')s'')"
  by (simp add: fun_eq_iff assignment_def)

lemma finite_effective_update_fields:
  "finite (effective_update_fields (get_model_dict entry) update_fields exclude_fields)"
  by (simp add: effective_update_fields_eq split: option.splits)

lemma alphabetical_enumerates:
  "distinct (alphabetical (effective_update_fields (get_model_dict entry) update_fields exclude_fields))
   \<and> set (alphabetical (effective_update_fields (get_model_dict entry) update_fields exclude_fields))
       = effective_update_fields (get_model_dict entry) update_fields exclude_fields"
  by (simp add: alphabetical_def finite_effective_update_fields)

lemma widget_present: "{c \<in> set (columns widget). getattr widget c \<noteq> None} = {''id'', ''qty''}"
  by (auto simp: widget_def)

lemma widget_id_only_present:
  "{c \<in> set (columns widget_id_only). getattr widget_id_only c \<noteq> None} = {''id''}"
  by (auto simp: widget_id_only_def)

lemma alphabetical_id_qty: "alphabetical {''id'', ''qty''} = [''id'', ''qty'']"
  by (simp add: alphabetical_def sorted_list_of_set_insert_remove)

lemma alphabetical_id_name: "alphabetical {''id'', ''name''} = [''id'', ''name'']"
  by (simp add: alphabetical_def sorted_list_of_set_insert_remove)

lemma alphabetical_empty: "alphabetical {} = []"
  by (simp add: alphabetical_def)

text \<open>
  \<^verbatim>\<open>sep.join\<close> puts the separator in front of every part but the first, so the update
  string is the first assignment followed by a comma, a space and an assignment for every
  further key.
\<close>

lemma join_concat:
  "join sep xs = (case xs of [] \<Rightarrow> [] | x # ys \<Rightarrow> x @ concat (map (\<lambda>y. sep @ y) ys))"
  by (induction sep xs rule: join.induct) simp_all

lemma count_list_distinct:
  "distinct xs \<Longrightarrow> count_list xs x = (if x \<in> set xs then 1 else 0)"
  by (induction xs) auto

lemma update_string_explicit:
  "join '', '' (map assignment keys)
     = (case keys of
          [] \<Rightarrow> []
        | key # rest \<Rightarrow>
            key @ '' = %('' @ key @ '')s''
            @ concat (map (\<lambda>col. '', '' @ col @ '' = %('' @ col @ '')s'') rest))"
  by (cases keys) (simp_all add: join_concat assignment_def comp_def)

lemma widget_named_present:
  "{c \<in> set (columns widget_named). getattr widget_named c \<noteq> None} = {''id'', ''name'', ''qty''}"
  by (auto simp: widget_named_def)

lemma alphabetical_id_name_qty:
  "alphabetical {''id'', ''name'', ''qty''} = [''id'', ''name'', ''qty'']"
  by (simp add: alphabetical_def sorted_list_of_set_insert_remove)

text \<open>
  Claim C5. For every call of \<^verbatim>\<open>insert_or_update\<close>, the effective update set is
  \<^verbatim>\<open>update_fields\<close> if given, otherwise the set of the present (non-null) columns of the
  record, minus \<^verbatim>\<open>exclude_fields\<close>; and the statement that is executed carries the
  trailing clause \<^verbatim>\<open>ON CONFLICT (<conflict_col>) DO UPDATE SET\<close> followed by the
  assignments \<^verbatim>\<open><col> = %(<col>)s\<close>, separated by a comma and a space, in the order in
  which the set is iterated. There are as many assignments as the effective set has
  members, and every member is assigned exactly once and no other column at all. The
  hypotheses say what the iteration over a Python set does: it gives every member once.
\<close>

theorem insert_or_update_clause:
  assumes "distinct (set_iter (effective_update_fields (get_model_dict entry) update_fields exclude_fields))"
    and "set (set_iter (effective_update_fields (get_model_dict entry) update_fields exclude_fields))
           = effective_update_fields (get_model_dict entry) update_fields exclude_fields"
  shows "effective_update_fields (get_model_dict entry) update_fields exclude_fields =
           (case update_fields of
              None \<Rightarrow> {c \<in> set (columns entry). getattr entry c \<noteq> None}
            | Some names \<Rightarrow> set names) - set exclude_fields
         \<and> take (Suc (length (trace session)))
              (trace (snd (insert_or_update store set_iter session entry column
                             update_fields exclude_fields flush)))
           = trace session
             @ [Execute
                  \<lparr>ins_table = tablename entry,
                   postgresql_append_string = Some
                     (''ON CONFLICT ('' @ column @ '') DO UPDATE SET ''
                      @ (case set_iter (effective_update_fields (get_model_dict entry)
                                          update_fields exclude_fields) of
                           [] \<Rightarrow> []
                         | key # rest \<Rightarrow>
                             key @ '' = %('' @ key @ '')s''
                             @ concat (map (\<lambda>col. '', '' @ col @ '' = %('' @ col @ '')s'')
                                         rest)))\<rparr>
                  (get_model_dict entry)]
         \<and> length (set_iter (effective_update_fields (get_model_dict entry)
                                update_fields exclude_fields))
             = card ((case update_fields of
                        None \<Rightarrow> {c \<in> set (columns entry). getattr entry c \<noteq> None}
                      | Some names \<Rightarrow> set names) - set exclude_fields)
         \<and> (\<forall>col. count_list (set_iter (effective_update_fields (get_model_dict entry)
                                           update_fields exclude_fields)) col
                  = (if col \<in> (case update_fields of
                                  None \<Rightarrow> {c \<in> set (columns entry). getattr entry c \<noteq> None}
                                | Some names \<Rightarrow> set names) - set exclude_fields
                     then 1 else 0))"
proof -
  let ?S = "effective_update_fields (get_model_dict entry) update_fields exclude_fields"
  let ?T = "(case update_fields of
              None \<Rightarrow> {c \<in> set (columns entry). getattr entry c \<noteq> None}
            | Some names \<Rightarrow> set names) - set exclude_fields"
  have e: "?S = ?T"
    by (rule effective_update_fields_eq)
  have t: "take (Suc (length (trace session)))
              (trace (snd (insert_or_update store set_iter session entry column
                             update_fields exclude_fields flush)))
           = trace session
             @ [Execute
                  \<lparr>ins_table = tablename entry,
                   postgresql_append_string = Some
                     (''ON CONFLICT ('' @ column @ '') DO UPDATE SET ''
                      @ (case set_iter ?S of
                           [] \<Rightarrow> []
                         | key # rest \<Rightarrow>
                             key @ '' = %('' @ key @ '')s''
                             @ concat (map (\<lambda>col. '', '' @ col @ '' = %('' @ col @ '')s'')
                                         rest)))\<rparr>
                  (get_model_dict entry)]"
    by (simp add: insert_or_update_run Let_def ON_CONFLICT_DO_UPDATE_def update_string_explicit)
  from assms(2) e have st: "set (set_iter ?S) = ?T"
    by (rule trans)
  have "length (set_iter ?S) = card (set (set_iter ?S))"
    using assms(1) by (simp only: distinct_card)
  also have "\<dots> = card ?T"
    by (simp only: st)
  finally have l: "length (set_iter ?S) = card ?T" .
  have c: "\<forall>col. count_list (set_iter ?S) col = (if col \<in> ?T then 1 else 0)"
  proof
    fix col
    have "count_list (set_iter ?S) col = (if col \<in> set (set_iter ?S) then 1 else 0)"
      using assms(1) by (rule count_list_distinct)
    also note st
    finally show "count_list (set_iter ?S) col = (if col \<in> ?T then 1 else 0)" .
  qed
  from e t l c show ?thesis by (intro conjI)
qed

theorem insert_or_update_clause_witness:
  "effective_update_fields (get_model_dict widget_named) None [] = {''id'', ''name'', ''qty''}
   \<and> trace (snd (insert_or_update accepting_store alphabetical new_world widget_named ''id''
                    None [] False))
     = [Execute \<lparr>ins_table = ''widgets'',
                  postgresql_append_string =
                    Some ''ON CONFLICT (id) DO UPDATE SET id = %(id)s, name = %(name)s, qty = %(qty)s''\<rparr>
                (get_model_dict widget_named)]
   \<and> length (alphabetical (effective_update_fields (get_model_dict widget_named) None [])) = 3"
proof -
  let ?S = "effective_update_fields (get_model_dict widget_named) None []"
  let ?run = "insert_or_update accepting_store alphabetical new_world widget_named ''id''
                None [] False"
  note h = alphabetical_enumerates [of widget_named None "[]"]
  note th = insert_or_update_clause [where set_iter = alphabetical and entry = widget_named
      and update_fields = None and exclude_fields = "[]" and column = "''id''"
      and session = new_world and store = accepting_store and flush = False,
      OF conjunct1 [OF h] conjunct2 [OF h]]
  have "?S = {''id'', ''name'', ''qty''} - set []"
    using conjunct1 [OF th] by (simp only: widget_named_present option.case)
  then have e: "?S = {''id'', ''name'', ''qty''}"
    by simp
  have k: "alphabetical ?S = [''id'', ''name'', ''qty'']"
    by (simp only: e alphabetical_id_name_qty)
  have len: "length (trace (snd ?run)) = 1"
    by (simp add: insert_or_update_run Let_def new_world_def accepting_store_def)
  have "trace (snd ?run) = take (Suc (length (trace (new_world :: int world)))) (trace (snd ?run))"
    using len by (simp add: new_world_def)
  also note conjunct1 [OF conjunct2 [OF th]]
  finally have tr: "trace (snd ?run)
     = [Execute \<lparr>ins_table = ''widgets'',
                  postgresql_append_string =
                    Some ''ON CONFLICT (id) DO UPDATE SET id = %(id)s, name = %(name)s, qty = %(qty)s''\<rparr>
                (get_model_dict widget_named)]"
    by (simp add: k new_world_def) (simp add: widget_named_def)
  have "length (alphabetical ?S) = card ((case None of
                        None \<Rightarrow> {c \<in> set (columns widget_named). getattr widget_named c \<noteq> None}
                      | Some names \<Rightarrow> set names) - set [])"
    by (rule conjunct1 [OF conjunct2 [OF conjunct2 [OF th]]])
  then have n: "length (alphabetical ?S) = 3"
    by (simp only: widget_named_present option.case) simp
  show ?thesis using e tr n by simp
qed

text \<open>
  Claim C1, as amended. The columns assigned in the \<^verbatim>\<open>DO UPDATE SET\<close> clause never
  include a column of \<^verbatim>\<open>exclude_fields\<close>. The conflict column is not removed by the
  function: it is assigned in the clause exactly when it is among \<^verbatim>\<open>update_fields\<close>
  (by default, the present columns of the record) and the caller has not put it into
  \<^verbatim>\<open>exclude_fields\<close>.
\<close>

theorem update_clause_columns:
  assumes "set (set_iter (effective_update_fields (get_model_dict entry) update_fields exclude_fields))
           = effective_update_fields (get_model_dict entry) update_fields exclude_fields"
  shows "take (Suc (length (trace session)))
              (trace (snd (insert_or_update store set_iter session entry column
                             update_fields exclude_fields flush)))
           = trace session
             @ [Execute
                  \<lparr>ins_table = tablename entry,
                   postgresql_append_string = Some
                     (ON_CONFLICT_DO_UPDATE column (join '', '' (map assignment
                          (set_iter (effective_update_fields (get_model_dict entry)
                                       update_fields exclude_fields)))))\<rparr>
                  (get_model_dict entry)]
         \<and> set (set_iter (effective_update_fields (get_model_dict entry)
                            update_fields exclude_fields)) \<inter> set exclude_fields = {}
         \<and> (column \<in> set (set_iter (effective_update_fields (get_model_dict entry)
                                       update_fields exclude_fields))
              \<longleftrightarrow> column \<in> (case update_fields of
                               None \<Rightarrow> {c \<in> set (columns entry). getattr entry c \<noteq> None}
                             | Some names \<Rightarrow> set names)
                  \<and> column \<notin> set exclude_fields)"
proof -
  let ?S = "effective_update_fields (get_model_dict entry) update_fields exclude_fields"
  have t: "take (Suc (length (trace session)))
              (trace (snd (insert_or_update store set_iter session entry column
                             update_fields exclude_fields flush)))
           = trace session
             @ [Execute
                  \<lparr>ins_table = tablename entry,
                   postgresql_append_string = Some
                     (ON_CONFLICT_DO_UPDATE column (join '', '' (map assignment (set_iter ?S))))\<rparr>
                  (get_model_dict entry)]"
    by (simp add: insert_or_update_run Let_def)
  have e: "?S = (case update_fields of
              None \<Rightarrow> {c \<in> set (columns entry). getattr entry c \<noteq> None}
            | Some names \<Rightarrow> set names) - set exclude_fields"
    by (rule effective_update_fields_eq)
  have x: "set (set_iter ?S) \<inter> set exclude_fields = {}"
    unfolding assms unfolding e by blast
  have c: "column \<in> set (set_iter ?S)
              \<longleftrightarrow> column \<in> (case update_fields of
                               None \<Rightarrow> {c \<in> set (columns entry). getattr entry c \<noteq> None}
                             | Some names \<Rightarrow> set names)
                  \<and> column \<notin> set exclude_fields"
    unfolding assms unfolding e by blast
  from t x c show ?thesis by (intro conjI)
qed

theorem update_clause_columns_witness:
  "trace (snd (insert_or_update accepting_store alphabetical new_world widget ''id''
                 (Some [''name'', ''id'', ''qty'']) [''qty''] False))
     = [Execute \<lparr>ins_table = ''widgets'',
                  postgresql_append_string =
                    Some ''ON CONFLICT (id) DO UPDATE SET id = %(id)s, name = %(name)s''\<rparr>
                (get_model_dict widget)]
   \<and> set (alphabetical (effective_update_fields (get_model_dict widget)
                          (Some [''name'', ''id'', ''qty'']) [''qty''])) \<inter> set [''qty''] = {}
   \<and> ''id'' \<in> set (alphabetical (effective_update_fields (get_model_dict widget)
                                    (Some [''name'', ''id'', ''qty'']) [''qty'']))"
proof -
  let ?S = "effective_update_fields (get_model_dict widget) (Some [''name'', ''id'', ''qty'']) [''qty'']"
  let ?run = "insert_or_update accepting_store alphabetical new_world widget ''id''
                 (Some [''name'', ''id'', ''qty'']) [''qty''] False"
  note h = alphabetical_enumerates [of widget "Some [''name'', ''id'', ''qty'']" "[''qty'']"]
  note th = update_clause_columns [where set_iter = alphabetical and entry = widget
      and update_fields = "Some [''name'', ''id'', ''qty'']" and exclude_fields = "[''qty'']"
      and column = "''id''" and session = new_world and store = accepting_store and flush = False,
      OF conjunct2 [OF h]]
  have e: "?S = {''id'', ''name''}"
    by (auto simp: effective_update_fields_def)
  have len: "length (trace (snd ?run)) = 1"
    by (simp add: insert_or_update_run Let_def new_world_def accepting_store_def)
  have "trace (snd ?run) = take (Suc (length (trace (new_world :: int world)))) (trace (snd ?run))"
    using len by (simp add: new_world_def)
  also note conjunct1 [OF th]
  finally have tr: "trace (snd ?run)
     = [Execute \<lparr>ins_table = ''widgets'',
                  postgresql_append_string =
                    Some ''ON CONFLICT (id) DO UPDATE SET id = %(id)s, name = %(name)s''\<rparr>
                (get_model_dict widget)]"
    by (simp add: e alphabetical_id_name new_world_def ON_CONFLICT_DO_UPDATE_def assignment_def)
       (simp add: widget_def)
  have x: "set (alphabetical ?S) \<inter> set [''qty''] = {}"
    by (rule conjunct1 [OF conjunct2 [OF th]])
  have c: "''id'' \<in> set (alphabetical ?S)"
    unfolding conjunct2 [OF conjunct2 [OF th]] by simp
  from tr x c show ?thesis by (intro conjI)
qed

text \<open>
  The claim C1 as stated fails: for a widget with \<^verbatim>\<open>id\<close> and \<^verbatim>\<open>qty\<close> present, the
  conflict column \<^verbatim>\<open>id\<close> and the default arguments, the effective update set contains
  \<^verbatim>\<open>id\<close> and the clause assigns it.
\<close>

theorem conflict_column_updated:
  "''id'' \<in> effective_update_fields (get_model_dict widget) None []
   \<and> trace (snd (insert_or_update accepting_store alphabetical new_world widget ''id''
                    None [] False))
     = [Execute \<lparr>ins_table = ''widgets'',
                  postgresql_append_string =
                    Some ''ON CONFLICT (id) DO UPDATE SET id = %(id)s, qty = %(qty)s''\<rparr>
                (get_model_dict widget)]"
proof -
  have e: "effective_update_fields (get_model_dict widget) None [] = {''id'', ''qty''}"
    by (simp only: effective_update_fields_eq widget_present option.case) simp
  have "trace (snd (insert_or_update accepting_store alphabetical new_world widget ''id''
                    None [] False))
     = [Execute \<lparr>ins_table = ''widgets'',
                  postgresql_append_string =
                    Some ''ON CONFLICT (id) DO UPDATE SET id = %(id)s, qty = %(qty)s''\<rparr>
                (get_model_dict widget)]"
    by (simp add: insert_or_update_run Let_def e alphabetical_id_qty new_world_def
          ON_CONFLICT_DO_UPDATE_def assignment_def accepting_store_def)
       (simp add: widget_def)
  with e show ?thesis by simp
qed

text \<open>
  Claim C10. When \<^verbatim>\<open>exclude_fields\<close> contains every member of the update fields (given, or
  by default the present columns), the call is not rejected: the statement reaches the
  session with the trailing clause \<^verbatim>\<open>ON CONFLICT (<conflict_col>) DO UPDATE SET\<close> and
  an empty list of assignments behind it, and the call raises only if the execution of
  that statement does.
\<close>

theorem insert_or_update_nothing_to_update:
  assumes "(case update_fields of
              None \<Rightarrow> {c \<in> set (columns entry). getattr entry c \<noteq> None}
            | Some names \<Rightarrow> set names) \<subseteq> set exclude_fields"
    and "set (set_iter {}) = {}"
  shows "fst (insert_or_update store set_iter session entry column update_fields exclude_fields flush)
           = (case store \<lparr>ins_table = tablename entry,
                          postgresql_append_string =
                            Some (''ON CONFLICT ('' @ column @ '') DO UPDATE SET '')\<rparr>
                         (get_model_dict entry) of
                Inl err \<Rightarrow> Inl err
              | Inr result \<Rightarrow> Inr ())
         \<and> take (Suc (length (trace session)))
              (trace (snd (insert_or_update store set_iter session entry column
                             update_fields exclude_fields flush)))
           = trace session
             @ [Execute
                  \<lparr>ins_table = tablename entry,
                   postgresql_append_string =
                     Some (''ON CONFLICT ('' @ column @ '') DO UPDATE SET '')\<rparr>
                  (get_model_dict entry)]"
proof -
  have "effective_update_fields (get_model_dict entry) update_fields exclude_fields = {}"
    using assms(1) by (simp add: effective_update_fields_eq)
  moreover from assms(2) have "set_iter {} = []" by simp
  ultimately show ?thesis
    by (simp add: insert_or_update_run Let_def ON_CONFLICT_DO_UPDATE_def)
qed

theorem insert_or_update_nothing_to_update_witness:
  "insert_or_update accepting_store alphabetical new_world widget_id_only ''id'' None [''id''] False
     = (Inr (),
        \<lparr>attached = Map.empty, flushed = Map.empty, committed = Map.empty,
         trace = [Execute \<lparr>ins_table = ''widgets'',
                           postgresql_append_string = Some ''ON CONFLICT (id) DO UPDATE SET ''\<rparr>
                          (get_model_dict widget_id_only)]\<rparr>)"
proof -
  let ?run = "insert_or_update accepting_store alphabetical new_world widget_id_only ''id''
                None [''id''] False"
  have a1: "(case None of
              None \<Rightarrow> {c \<in> set (columns widget_id_only). getattr widget_id_only c \<noteq> None}
            | Some names \<Rightarrow> set names) \<subseteq> set [''id'']"
    by (simp only: option.case widget_id_only_present) simp
  have a2: "set (alphabetical {}) = {}"
    by (simp add: alphabetical_empty)
  note th = insert_or_update_nothing_to_update [where set_iter = alphabetical
      and entry = widget_id_only and update_fields = None and exclude_fields = "[''id'']"
      and column = "''id''" and session = new_world and store = accepting_store and flush = False,
      OF a1 a2]
  have r: "fst ?run = Inr ()"
    using conjunct1 [OF th] by (simp add: accepting_store_def)
  have len: "length (trace (snd ?run)) = 1"
    by (simp add: insert_or_update_run Let_def new_world_def accepting_store_def)
  have "trace (snd ?run) = take (Suc (length (trace (new_world :: int world)))) (trace (snd ?run))"
    using len by (simp add: new_world_def)
  also note conjunct2 [OF th]
  finally have tr: "trace (snd ?run)
     = [Execute \<lparr>ins_table = ''widgets'',
                  postgresql_append_string = Some ''ON CONFLICT (id) DO UPDATE SET ''\<rparr>
                (get_model_dict widget_id_only)]"
    by (simp add: new_world_def) (simp add: widget_id_only_def)
  have o: "attached (snd ?run) = Map.empty \<and> flushed (snd ?run) = Map.empty
             \<and> committed (snd ?run) = Map.empty"
    by (simp add: insert_or_update_run Let_def new_world_def)
  show ?thesis
    using r tr o by (cases ?run, cases "snd ?run") simp
qed

text \<open>
  Claim C8. For every record, \<^verbatim>\<open>insert_or_ignore\<close> executes the insert into the record's
  table with the record's present columns as parameters and the trailing clause
  \<^verbatim>\<open>ON CONFLICT DO NOTHING\<close>, nothing else, and returns what the execution gives (or
  raises what it raises). \<^verbatim>\<open>insert_or_update\<close> executes an insert into the same table
  with the same parameters and drops the result of the execution: it returns nothing.
\<close>

theorem insert_or_ignore_statement:
  "fst (insert_or_ignore store session entry flush)
     = store \<lparr>ins_table = tablename entry,
              postgresql_append_string = Some ''ON CONFLICT DO NOTHING''\<rparr> (get_model_dict entry)
   \<and> take (Suc (length (trace session))) (trace (snd (insert_or_ignore store session entry flush)))
     = trace session
       @ [Execute \<lparr>ins_table = tablename entry,
                    postgresql_append_string = Some ''ON CONFLICT DO NOTHING''\<rparr>
                  (get_model_dict entry)]
   \<and> dom (get_model_dict entry) = {c \<in> set (columns entry). getattr entry c \<noteq> None}
   \<and> (\<exists>clause.
         take (Suc (length (trace session)))
           (trace (snd (insert_or_update store set_iter session entry column
                          update_fields exclude_fields flush)))
         = trace session
           @ [Execute \<lparr>ins_table = tablename entry, postgresql_append_string = Some clause\<rparr>
                      (get_model_dict entry)]
       \<and> fst (insert_or_update store set_iter session entry column
                 update_fields exclude_fields flush)
         = (case store \<lparr>ins_table = tablename entry, postgresql_append_string = Some clause\<rparr>
                       (get_model_dict entry) of
              Inl err \<Rightarrow> Inl err
            | Inr result \<Rightarrow> Inr ()))"
proof (intro conjI)
  show "fst (insert_or_ignore store session entry flush)
     = store \<lparr>ins_table = tablename entry,
              postgresql_append_string = Some ''ON CONFLICT DO NOTHING''\<rparr> (get_model_dict entry)"
    by (simp add: insert_or_ignore_run Let_def ON_CONFLICT_DO_NOTHING_def)
  show "take (Suc (length (trace session))) (trace (snd (insert_or_ignore store session entry flush)))
     = trace session
       @ [Execute \<lparr>ins_table = tablename entry,
                    postgresql_append_string = Some ''ON CONFLICT DO NOTHING''\<rparr>
                  (get_model_dict entry)]"
    by (simp add: insert_or_ignore_run Let_def ON_CONFLICT_DO_NOTHING_def)
  show "dom (get_model_dict entry) = {c \<in> set (columns entry). getattr entry c \<noteq> None}"
    by (rule dom_get_model_dict)
  show "\<exists>clause.
         take (Suc (length (trace session)))
           (trace (snd (insert_or_update store set_iter session entry column
                          update_fields exclude_fields flush)))
         = trace session
           @ [Execute \<lparr>ins_table = tablename entry, postgresql_append_string = Some clause\<rparr>
                      (get_model_dict entry)]
       \<and> fst (insert_or_update store set_iter session entry column
                 update_fields exclude_fields flush)
         = (case store \<lparr>ins_table = tablename entry, postgresql_append_string = Some clause\<rparr>
                       (get_model_dict entry) of
              Inl err \<Rightarrow> Inl err
            | Inr result \<Rightarrow> Inr ())"
    by (rule exI [of _ "ON_CONFLICT_DO_UPDATE column (join '', '' (map assignment
           (set_iter (effective_update_fields (get_model_dict entry) update_fields exclude_fields))))"])
       (simp add: insert_or_update_run Let_def)
qed

section \<open>Initialisation of the connection manager\<close>

text \<open>
  In a thread whose namespace has the three attributes (the thread that imported the
  module, or any thread after a forced call), the guard works as a lazy initialisation:
  with an engine and without force nothing changes, also on a repeated call; with force,
  or without an engine, the engine that \<^verbatim>\<open>default_engine()\<close> returns and two factories
  bound to it replace all three. A forced call works in every thread.
\<close>

lemma init_db_with_attributes:
  "(db_engine d \<noteq> None \<longrightarrow>
      init_db default_engine False (Some d) = (Inr (), Some d)
    \<and> init_db default_engine' False (snd (init_db default_engine False (Some d)))
        = (Inr (), Some d))
   \<and> (force \<or> db_engine d = None \<longrightarrow>
        init_db (Inr e) force (Some d)
          = (Inr (),
             Some \<lparr>db_engine = Some e,
                   db_Session = Some \<lparr>bind = e, autocommit = False, autoflush = True\<rparr>,
                   db_AutoSession = Some \<lparr>bind = e, autocommit = True, autoflush = True\<rparr>\<rparr>))"
  by (simp add: init_db_def Let_def)

lemma init_db_forced:
  "init_db (Inr e) True d
     = (Inr (),
        Some \<lparr>db_engine = Some e,
              db_Session = Some \<lparr>bind = e, autocommit = False, autoflush = True\<rparr>,
              db_AutoSession = Some \<lparr>bind = e, autocommit = True, autoflush = True\<rparr>\<rparr>)"
  by (simp add: init_db_def Let_def)

lemma init_db_importing_thread:
  "init_db (Inr 1) False (Some no_db)
     = (Inr (), Some \<lparr>db_engine = Some (1::nat),
                      db_Session = Some \<lparr>bind = 1, autocommit = False, autoflush = True\<rparr>,
                      db_AutoSession = Some \<lparr>bind = 1, autocommit = True, autoflush = True\<rparr>\<rparr>)"
  by (simp add: init_db_def Let_def no_db_def)

text \<open>
  Claim C9 says that \<^verbatim>\<open>init_db\<close> creates the engine and both session factories when no
  engine exists. In a thread other than the importing one no engine exists, and the
  namespace of the thread has no attribute \<^verbatim>\<open>engine\<close> either: the call without force,
  which is the call that \<^verbatim>\<open>DB()\<close> makes, raises \<^verbatim>\<open>AttributeError\<close> at the guard,
  whatever \<^verbatim>\<open>default_engine()\<close> would return, and creates nothing.
\<close>

theorem init_db_missing_attribute:
  "init_db default_engine False None = (Inl (AttributeError ''engine''), None)"
  by (simp add: init_db_def Let_def)

section \<open>Exit paths of the scoped session\<close>

text \<open>
  Claim C7. When an exception leaves the block of the scoped session, the context logs it,
  then rolls the transaction back, then closes the session, in that order; when the block
  ends normally the context only closes the session: no commit is issued, and what is
  committed is what the block has committed itself.
\<close>

theorem ctx_exit_paths:
  "(block (session_new w) = (out, Some err, session) \<longrightarrow>
      ctx block w = (out, None, session_close (session_rollback (logging_exception err session)))
    \<and> trace (snd (snd (ctx block w))) = trace session @ [LogException err, Rollback, Close])
   \<and> (block (session_new w) = (out, None, session) \<longrightarrow>
        ctx block w = (out, None, session_close session)
      \<and> trace (snd (snd (ctx block w))) = trace session @ [Close]
      \<and> committed (snd (snd (ctx block w))) = committed session)"
  by (simp add: ctx_def session_close_def session_rollback_def logging_exception_def
        record_event_def)

theorem ctx_exit_paths_witness:
  "trace (snd (snd (ctx (\<lambda>session. ((), Some (Exception ''lost''), session))
                      (new_world :: int world))))
     = [LogException (Exception ''lost''), Rollback, Close]
   \<and> trace (snd (snd (ctx (\<lambda>session. ((), None, session)) (new_world :: int world)))) = [Close]"
proof -
  let ?w = "new_world :: int world"
  let ?raising = "\<lambda>session :: int world. ((), Some (Exception ''lost''), session)"
  let ?quiet = "\<lambda>session :: int world. ((), None :: py_exception option, session)"
  note raising = ctx_exit_paths [where block = ?raising and w = ?w and out = "()"
      and err = "Exception ''lost''" and session = "session_new ?w"]
  note quiet = ctx_exit_paths [where block = ?quiet and w = ?w and out = "()"
      and session = "session_new ?w"]
  have a: "trace (snd (snd (ctx ?raising ?w)))
             = trace (session_new ?w) @ [LogException (Exception ''lost''), Rollback, Close]"
    by (rule conjunct2 [OF mp [OF conjunct1 [OF raising] refl]])
  have b: "trace (snd (snd (ctx ?quiet ?w))) = trace (session_new ?w) @ [Close]"
    by (rule conjunct1 [OF conjunct2 [OF mp [OF conjunct2 [OF quiet] refl]]])
  from a b show ?thesis by (simp add: new_world_def session_new_def)
qed

section \<open>A pass of the mapper\<close>

text \<open>
  The steps of a transform leave no event and commit nothing. They change the working set
  only at the identity of the entry the transform was called on, and they flush an
  identity only if the transform runs a query while that identity is in the working set.
\<close>

lemma run_steps_trace: "trace (run_steps i steps w) = trace w"
proof (induction steps arbitrary: w)
  case Nil
  show ?case by simp
next
  case (Cons step steps)
  show ?case by (cases step) (simp_all add: Cons.IH session_autoflush_def)
qed

lemma run_steps_committed: "committed (run_steps i steps w) = committed w"
proof (induction steps arbitrary: w)
  case Nil
  show ?case by simp
next
  case (Cons step steps)
  show ?case by (cases step) (simp_all add: Cons.IH session_autoflush_def)
qed

lemma run_steps_attached:
  "attached w i = Some entry \<Longrightarrow>
     attached (run_steps i steps w) = (attached w)(i \<mapsto> entry_after entry steps)"
proof (induction steps arbitrary: w entry)
  case Nil
  then show ?case by (simp add: map_upd_triv)
next
  case (Cons step steps)
  show ?case
  proof (cases step)
    case (Change entry')
    have "attached (run_step i step w) i = Some entry'"
      by (simp add: Change)
    then have "attached (run_steps i steps (run_step i step w))
                 = (attached (run_step i step w))(i \<mapsto> entry_after entry' steps)"
      by (rule Cons.IH)
    then show ?thesis by (simp add: Change)
  next
    case Load
    have "attached (run_step i step w) i = Some entry"
      using Cons.prems by (simp add: Load session_autoflush_def)
    then have "attached (run_steps i steps (run_step i step w))
                 = (attached (run_step i step w))(i \<mapsto> entry_after entry steps)"
      by (rule Cons.IH)
    then show ?thesis by (simp add: Load session_autoflush_def)
  qed
qed

lemma run_steps_attached_other:
  "j \<noteq> i \<Longrightarrow> attached (run_steps i steps w) j = attached w j"
proof (induction steps arbitrary: w)
  case Nil
  show ?case by simp
next
  case (Cons step steps)
  then show ?case by (cases step) (simp_all add: session_autoflush_def)
qed

lemma run_steps_flushed_other:
  "j \<noteq> i \<Longrightarrow> attached w j = None \<Longrightarrow> flushed (run_steps i steps w) j = flushed w j"
proof (induction steps arbitrary: w)
  case Nil
  show ?case by simp
next
  case (Cons step steps)
  show ?case
  proof (cases step)
    case (Change entry')
    with Cons.prems have "attached (run_step i step w) j = None" by simp
    with Cons.prems(1) have "flushed (run_steps i steps (run_step i step w)) j
                               = flushed (run_step i step w) j"
      by (rule Cons.IH)
    then show ?thesis by (simp add: Change)
  next
    case Load
    with Cons.prems have "attached (run_step i step w) j = None"
      by (simp add: session_autoflush_def)
    with Cons.prems(1) have "flushed (run_steps i steps (run_step i step w)) j
                               = flushed (run_step i step w) j"
      by (rule Cons.IH)
    with Cons.prems(2) show ?thesis
      by (simp add: Load session_autoflush_def map_add_def)
  qed
qed

lemma run_steps_flushed_no_load:
  "Load \<notin> set steps \<Longrightarrow> flushed (run_steps i steps w) = flushed w"
proof (induction steps arbitrary: w)
  case Nil
  show ?case by simp
next
  case (Cons step steps)
  then show ?case by (cases step) simp_all
qed

text \<open>
  One call of the wrapped transform on the entry the cursor has just delivered.
\<close>

lemma error_handler_fst:
  "fst (error_handler fn i entry session) =
     (case snd (fn entry) of Inl err \<Rightarrow> None | Inr mapped \<Rightarrow> Some mapped)"
  by (cases "fn entry") (simp add: error_handler_def split: sum.splits)

lemma error_handler_snd:
  "snd (error_handler fn i entry session) =
     (case snd (fn entry) of
        Inr mapped \<Rightarrow> run_steps i (fst (fn entry)) session
      | Inl err \<Rightarrow> session_expunge i (logging_error err (run_steps i (fst (fn entry)) session)))"
  by (cases "fn entry") (simp add: error_handler_def split: sum.splits)

lemma error_handler_trace:
  "trace (snd (error_handler fn i entry (query_next i entry session))) =
     trace session @ (case snd (fn entry) of
                        Inl err \<Rightarrow> [LogError err, Expunge i]
                      | Inr mapped \<Rightarrow> [])"
  by (simp add: error_handler_snd run_steps_trace session_expunge_def logging_error_def
        record_event_def query_next_def split: sum.splits)

lemma error_handler_committed:
  "committed (snd (error_handler fn i entry (query_next i entry session))) = committed session"
  by (simp add: error_handler_snd run_steps_committed session_expunge_def logging_error_def
        record_event_def query_next_def split: sum.splits)

lemma error_handler_attached:
  "attached (snd (error_handler fn i entry (query_next i entry session))) j =
     (if j = i
      then (case snd (fn entry) of
              Inl err \<Rightarrow> None
            | Inr mapped \<Rightarrow> Some (entry_after entry (fst (fn entry))))
      else attached session j)"
proof -
  have a: "attached (query_next i entry session) i = Some entry"
    by (simp add: query_next_def)
  have r: "attached (run_steps i (fst (fn entry)) (query_next i entry session))
             = (attached session)(i \<mapsto> entry_after entry (fst (fn entry)))"
    using run_steps_attached [OF a, of "fst (fn entry)"] by (simp add: query_next_def)
  show ?thesis
    by (simp add: error_handler_snd r session_expunge_def logging_error_def record_event_def
          split: sum.splits)
qed

lemma error_handler_flushed:
  assumes "attached session j = None"
    and "j \<noteq> i \<or> Load \<notin> set (fst (fn entry))"
  shows "flushed (snd (error_handler fn i entry (query_next i entry session))) j = flushed session j"
proof -
  have "flushed (run_steps i (fst (fn entry)) (query_next i entry session)) j
          = flushed (query_next i entry session) j"
  proof (cases "j = i")
    case True
    with assms(2) have "Load \<notin> set (fst (fn entry))" by simp
    then show ?thesis by (simp add: run_steps_flushed_no_load)
  next
    case False
    moreover from False assms(1) have "attached (query_next i entry session) j = None"
      by (simp add: query_next_def)
    ultimately show ?thesis by (rule run_steps_flushed_other)
  qed
  then show ?thesis
    by (simp add: error_handler_snd session_expunge_def logging_error_def record_event_def
          query_next_def split: sum.splits)
qed

text \<open>
  The loop: what it yields, what it leaves in the working set, what it has flushed, and the
  events it leaves behind.
\<close>

lemma map_loop_Cons:
  "map_loop fn tee i (entry # rest) session =
     ((if tee then [fst (error_handler fn i entry (query_next i entry session))] else [])
        @ fst (map_loop fn tee (Suc i) rest
                 (snd (error_handler fn i entry (query_next i entry session)))),
      snd (map_loop fn tee (Suc i) rest
             (snd (error_handler fn i entry (query_next i entry session)))))"
  by (simp split: prod.splits)

lemma map_loop_yielded:
  "fst (map_loop fn tee i rows session) =
     (if tee then map (\<lambda>entry. case snd (fn entry) of Inl err \<Rightarrow> None | Inr mapped \<Rightarrow> Some mapped) rows
      else [])"
proof (induction rows arbitrary: i session)
  case Nil
  show ?case by simp
next
  case (Cons entry rest)
  show ?case
    by (simp only: map_loop_Cons fst_conv Cons.IH error_handler_fst) simp
qed

lemma map_loop_committed:
  "committed (snd (map_loop fn tee i rows session)) = committed session"
proof (induction rows arbitrary: i session)
  case Nil
  show ?case by simp
next
  case (Cons entry rest)
  show ?case
    by (simp only: map_loop_Cons snd_conv Cons.IH error_handler_committed)
qed

lemma map_loop_attached:
  "attached (snd (map_loop fn tee i rows session)) j =
     (if i \<le> j \<and> j < i + length rows
      then (case snd (fn (rows ! (j - i))) of
              Inl err \<Rightarrow> None
            | Inr mapped \<Rightarrow> Some (entry_after (rows ! (j - i)) (fst (fn (rows ! (j - i))))))
      else attached session j)"
proof (induction rows arbitrary: i session)
  case Nil
  show ?case by auto
next
  case (Cons entry rest)
  have step: "attached (snd (map_loop fn tee i (entry # rest) session)) j =
     (if Suc i \<le> j \<and> j < Suc i + length rest
      then (case snd (fn (rest ! (j - Suc i))) of
              Inl err \<Rightarrow> None
            | Inr mapped \<Rightarrow> Some (entry_after (rest ! (j - Suc i)) (fst (fn (rest ! (j - Suc i))))))
      else attached (snd (error_handler fn i entry (query_next i entry session))) j)"
    by (simp only: map_loop_Cons snd_conv Cons.IH)
  show ?case
  proof (cases "j = i")
    case True
    show ?thesis
      unfolding True using step [unfolded True]
      by (simp add: error_handler_attached del: map_loop.simps split: sum.splits)
  next
    case False
    have "Suc i \<le> j \<Longrightarrow> (entry # rest) ! (j - i) = rest ! (j - Suc i)"
      by (simp add: Suc_diff_le)
    with False show ?thesis
      unfolding step by (auto simp: error_handler_attached split: sum.splits)
  qed
qed

lemma map_loop_flushed:
  assumes "attached session j = None"
    and "j < i \<or> i + length rows \<le> j
         \<or> (isl (snd (fn (rows ! (j - i)))) \<and> Load \<notin> set (fst (fn (rows ! (j - i)))))"
  shows "flushed (snd (map_loop fn tee i rows session)) j = flushed session j"
  using assms
proof (induction rows arbitrary: i session)
  case Nil
  show ?case by simp
next
  case (Cons entry rest)
  let ?s = "snd (error_handler fn i entry (query_next i entry session))"
  have nth: "Suc i \<le> j \<Longrightarrow> (entry # rest) ! (j - i) = rest ! (j - Suc i)"
    by (simp add: Suc_diff_le)
  have own: "j = i \<Longrightarrow> isl (snd (fn entry)) \<and> Load \<notin> set (fst (fn entry))"
    using Cons.prems(2) by auto
  have a: "attached ?s j = None"
  proof (cases "j = i")
    case True
    with own have "isl (snd (fn entry))" by simp
    with True show ?thesis
      by (cases "snd (fn entry)") (simp_all add: error_handler_attached)
  next
    case False
    with Cons.prems(1) show ?thesis by (simp add: error_handler_attached)
  qed
  have r: "j < Suc i \<or> Suc i + length rest \<le> j
         \<or> (isl (snd (fn (rest ! (j - Suc i)))) \<and> Load \<notin> set (fst (fn (rest ! (j - Suc i)))))"
  proof (cases "Suc i \<le> j")
    case True
    with Cons.prems(2) nth show ?thesis by auto
  next
    case False
    then show ?thesis by simp
  qed
  have f: "flushed ?s j = flushed session j"
  proof (rule error_handler_flushed [OF Cons.prems(1)])
    show "j \<noteq> i \<or> Load \<notin> set (fst (fn entry))"
      using own by blast
  qed
  have "flushed (snd (map_loop fn tee (Suc i) rest ?s)) j = flushed ?s j"
    using a r by (rule Cons.IH)
  with f show ?case
    by (simp only: map_loop_Cons snd_conv)
qed

lemma map_loop_trace:
  "trace (snd (map_loop fn tee i rows session)) =
     trace session
     @ concat (map (\<lambda>(j, entry). case snd (fn entry) of
                                      Inl err \<Rightarrow> [LogError err, Expunge j]
                                    | Inr mapped \<Rightarrow> [])
                (zip [i..<i + length rows] rows))"
proof (induction rows arbitrary: i session)
  case Nil
  show ?case by simp
next
  case (Cons entry rest)
  have "[i..<Suc (i + length rest)] = i # [Suc i..<Suc (i + length rest)]"
    by (rule upt_conv_Cons) simp
  then have u: "[i..<i + length (entry # rest)] = i # [Suc i..<Suc i + length rest]"
    by simp
  show ?case
    by (simp only: map_loop_Cons snd_conv Cons.IH error_handler_trace u)
       (simp split: sum.splits)
qed

lemma loop_events_no_commit:
  "Commit \<notin> set (concat (map (\<lambda>(j, entry). case snd (fn entry) of
                                      Inl err \<Rightarrow> [LogError err, Expunge j]
                                    | Inr mapped \<Rightarrow> [])
                (zip js rows)))"
  by (auto split: sum.splits)

lemma count_commit_loop_events:
  "count_list (concat (map (\<lambda>(j, entry). case snd (fn entry) of
                                      Inl err \<Rightarrow> [LogError err, Expunge j]
                                    | Inr mapped \<Rightarrow> [])
                (zip js rows))) Commit = 0"
  using loop_events_no_commit [of fn js rows] by (simp only: count_list_0_iff)

text \<open>
  The body run to its end, and the consumers for which it runs to its end.
\<close>

lemma map_to_end_yielded:
  "fst (map_to_end fn tee (rows, failure) w) =
     (if tee then map (\<lambda>entry. case snd (fn entry) of Inl err \<Rightarrow> None | Inr mapped \<Rightarrow> Some mapped) rows
      else [])"
  unfolding map_loop_yielded [of fn tee 0 rows "session_new w", symmetric]
  by (simp add: map_to_end_def ctx_def split: prod.splits option.splits)

lemma map_to_end_raised:
  "fst (snd (map_to_end fn tee query w)) = None"
  by (simp add: map_to_end_def ctx_def split: prod.splits option.splits)

lemma map_to_end_snd_completed:
  "snd (snd (map_to_end fn tee (rows, None) w)) =
     session_close (session_commit (snd (map_loop fn tee 0 rows (session_new w))))"
  by (simp add: map_to_end_def ctx_def split: prod.splits option.splits)

lemma map_to_end_snd_failed:
  "snd (snd (map_to_end fn tee (rows, Some err) w)) =
     session_close (session_rollback (logging_exception err
       (snd (map_loop fn tee 0 rows (session_new w)))))"
  by (simp add: map_to_end_def ctx_def split: prod.splits option.splits)

lemma map_to_end_trace_completed:
  "trace (snd (snd (map_to_end fn tee (rows, None) w))) =
     trace w
     @ concat (map (\<lambda>(j, entry). case snd (fn entry) of
                                      Inl err \<Rightarrow> [LogError err, Expunge j]
                                    | Inr mapped \<Rightarrow> [])
                (zip [0..<length rows] rows))
     @ [Commit, Close]"
  by (simp add: map_to_end_snd_completed session_close_def session_commit_def record_event_def
        map_loop_trace session_new_def)

lemma map_to_end_trace_failed:
  "trace (snd (snd (map_to_end fn tee (rows, Some err) w))) =
     trace w
     @ concat (map (\<lambda>(j, entry). case snd (fn entry) of
                                      Inl err \<Rightarrow> [LogError err, Expunge j]
                                    | Inr mapped \<Rightarrow> [])
                (zip [0..<length rows] rows))
     @ [LogException err, Rollback, Close]"
  by (simp add: map_to_end_snd_failed session_close_def session_rollback_def
        logging_exception_def record_event_def map_loop_trace session_new_def)

lemma map_to_end_committed_completed:
  "committed (snd (snd (map_to_end fn tee (rows, None) w))) =
     committed w ++ (flushed (snd (map_loop fn tee 0 rows (session_new w)))
                     ++ attached (snd (map_loop fn tee 0 rows (session_new w))))"
  by (simp add: map_to_end_snd_completed session_close_def session_commit_def record_event_def
        map_loop_committed session_new_def)

lemma map_to_end_committed_failed:
  "committed (snd (snd (map_to_end fn tee (rows, Some err) w))) = committed w"
  by (simp add: map_to_end_snd_failed session_close_def session_rollback_def
        logging_exception_def record_event_def map_loop_committed session_new_def)

lemma map_to_end_flushed_failed:
  "flushed (snd (snd (map_to_end fn tee (rows, Some err) w))) = Map.empty"
  by (simp add: map_to_end_snd_failed session_close_def session_rollback_def
        logging_exception_def record_event_def)

lemma dbmapper_map_drained:
  "dbmapper_map fn tee query None w = map_to_end fn tee query w"
  by (simp add: dbmapper_map_def)

lemma dbmapper_map_beyond:
  "dbmapper_map fn tee (rows, failure) (Some (Suc (length rows + m))) w
     = map_to_end fn tee (rows, failure) w"
  by (simp add: dbmapper_map_def)

lemma dbmapper_map_all_values:
  assumes "0 < length rows"
  shows "dbmapper_map fn True (rows, failure) (Some (length rows)) w
           = (fst (map_loop fn True 0 rows (session_new w)), None,
              snd (map_loop fn True 0 rows (session_new w)))"
proof -
  from assms obtain n where n: "length rows = Suc n"
    by (cases "length rows") auto
  have "take (Suc n) rows = rows"
    using n by simp
  then show ?thesis
    by (simp add: dbmapper_map_def n split: prod.splits)
qed

lemma restock_widget: "snd (restock widget) = Inr (entry_after widget (fst (restock widget)))"
  by (simp add: restock_def widget_def Let_def)

lemma restock_widget_id_only: "snd (restock widget_id_only) = Inl (Exception ''qty is None'')"
  by (simp add: restock_def widget_id_only_def Let_def)

lemma restock_widget_id_only_steps:
  "fst (restock widget_id_only)
     = [Change (widget_id_only\<lparr>getattr := (getattr widget_id_only)(''name'' \<mapsto> 0)\<rparr>)]"
  by (simp add: restock_def widget_id_only_def Let_def)

lemma restock_after_lookup_widget:
  "snd (restock_after_lookup widget) = Inr (entry_after widget (fst (restock_after_lookup widget)))"
  by (simp add: restock_after_lookup_def widget_def Let_def)

lemma restock_after_lookup_widget_id_only:
  "restock_after_lookup widget_id_only
     = ([Change (widget_id_only\<lparr>getattr := (getattr widget_id_only)(''name'' \<mapsto> 0)\<rparr>), Load],
        Inl (Exception ''qty is None''))"
  by (simp add: restock_after_lookup_def widget_id_only_def Let_def)

lemma lookup_flushes_failed_row:
  "flushed (snd (error_handler restock_after_lookup 0 widget_id_only
                   (query_next 0 widget_id_only (session_new new_world)))) 0
     = Some (widget_id_only\<lparr>getattr := (getattr widget_id_only)(''name'' \<mapsto> 0)\<rparr>)"
  by (simp add: error_handler_def restock_after_lookup_widget_id_only query_next_def
        session_new_def new_world_def session_autoflush_def session_expunge_def
        logging_error_def record_event_def)

lemma lookup_attached_after_failed_row:
  "attached (snd (error_handler restock_after_lookup 0 widget_id_only
                    (query_next 0 widget_id_only (session_new new_world)))) = Map.empty"
  by (simp add: error_handler_def restock_after_lookup_widget_id_only query_next_def
        session_new_def new_world_def session_autoflush_def session_expunge_def
        logging_error_def record_event_def)

lemma all_but_one_present:
  assumes "k < length ys" and "\<And>i. i < length ys \<Longrightarrow> (ys ! i = None) \<longleftrightarrow> i = k"
  shows "length (filter (\<lambda>y. y \<noteq> None) ys) = length ys - 1"
proof -
  have "{i. i < length ys \<and> ys ! i \<noteq> None} = {..<length ys} - {k}"
  proof (rule set_eqI)
    fix i
    show "i \<in> {i. i < length ys \<and> ys ! i \<noteq> None} \<longleftrightarrow> i \<in> {..<length ys} - {k}"
    proof (cases "i < length ys")
      case True
      with assms(2) [of i] show ?thesis by (simp del: not_None_eq)
    next
      case False
      then show ?thesis by simp
    qed
  qed
  then have "length (filter (\<lambda>y. y \<noteq> None) ys) = card ({..<length ys} - {k})"
    by (simp only: length_filter_conv_card)
  also have "\<dots> = length ys - 1"
    using assms(1) by simp
  finally show ?thesis .
qed

text \<open>
  Claim C3, as amended. When the query raises during a pass (after delivering any number of
  rows) and the consumer iterates that far, the exception leaves the loop, so
  \<^verbatim>\<open>session.commit()\<close> is never reached: the pass issues no commit, and nothing of the
  pass is committed. The scoped session catches the exception, logs it, rolls back and
  closes the session, and does not raise it again: the generator ends, and nothing is
  raised to the caller.
\<close>

theorem whole_pass_error_is_swallowed:
  "dbmapper_map fn tee (rows, Some err) (Some (Suc (length rows + m))) w
     = dbmapper_map fn tee (rows, Some err) None w
   \<and> fst (snd (dbmapper_map fn tee (rows, Some err) None w)) = None
   \<and> trace (snd (snd (dbmapper_map fn tee (rows, Some err) None w))) =
       trace w
       @ concat (map (\<lambda>(j, entry). case snd (fn entry) of
                                        Inl err \<Rightarrow> [LogError err, Expunge j]
                                      | Inr mapped \<Rightarrow> [])
                  (zip [0..<length rows] rows))
       @ [LogException err, Rollback, Close]
   \<and> count_list (trace (snd (snd (dbmapper_map fn tee (rows, Some err) None w)))) Commit
       = count_list (trace w) Commit
   \<and> flushed (snd (snd (dbmapper_map fn tee (rows, Some err) None w))) = Map.empty
   \<and> committed (snd (snd (dbmapper_map fn tee (rows, Some err) None w))) = committed w"
proof (intro conjI)
  show "dbmapper_map fn tee (rows, Some err) (Some (Suc (length rows + m))) w
     = dbmapper_map fn tee (rows, Some err) None w"
    by (simp only: dbmapper_map_beyond dbmapper_map_drained)
  show "fst (snd (dbmapper_map fn tee (rows, Some err) None w)) = None"
    by (simp only: dbmapper_map_drained map_to_end_raised)
  show "trace (snd (snd (dbmapper_map fn tee (rows, Some err) None w))) =
       trace w
       @ concat (map (\<lambda>(j, entry). case snd (fn entry) of
                                        Inl err \<Rightarrow> [LogError err, Expunge j]
                                      | Inr mapped \<Rightarrow> [])
                  (zip [0..<length rows] rows))
       @ [LogException err, Rollback, Close]"
    by (simp only: dbmapper_map_drained map_to_end_trace_failed)
  show "count_list (trace (snd (snd (dbmapper_map fn tee (rows, Some err) None w)))) Commit
       = count_list (trace w) Commit"
    by (simp add: dbmapper_map_drained map_to_end_trace_failed count_commit_loop_events)
  show "flushed (snd (snd (dbmapper_map fn tee (rows, Some err) None w))) = Map.empty"
    by (simp only: dbmapper_map_drained map_to_end_flushed_failed)
  show "committed (snd (snd (dbmapper_map fn tee (rows, Some err) None w))) = committed w"
    by (simp only: dbmapper_map_drained map_to_end_committed_failed)
qed

text \<open>
  The claim C3 as stated fails where it lets the error reach the caller: a pass over one
  widget whose query then loses the connection raises nothing.
\<close>

theorem whole_pass_error_not_raised:
  "fst (snd (dbmapper_map restock True ([widget], Some (Exception ''connection lost'')) None
               new_world))
     = None
   \<and> trace (snd (snd (dbmapper_map restock True
                         ([widget], Some (Exception ''connection lost'')) None new_world)))
     = [LogException (Exception ''connection lost''), Rollback, Close]"
  by (simp add: dbmapper_map_drained map_to_end_raised map_to_end_trace_failed new_world_def
        restock_widget)

text \<open>
  Claim C2, as amended. In a pass with \<^verbatim>\<open>tee\<close> true over \<open>N\<close> rows in which the
  transform raises on row \<open>k\<close> and on no other row, the mapper yields \<open>N\<close> values, one
  per row and in the order of the rows: the result of the transform for every row but
  \<open>k\<close>, and \<^verbatim>\<open>None\<close> at the place of row \<open>k\<close>; so exactly \<open>N - 1\<close> of the yielded
  values are results. When the consumer iterates to the end, the pass issues exactly one
  commit and raises nothing; a consumer that takes the \<open>N\<close> values and does not ask
  again gets the same values and no commit. Row \<open>k\<close> is expunged from the working set
  of the session, so the commit takes nothing of row \<open>k\<close> from the working set: when the
  transform of row \<open>k\<close> has not made the session run a query, nothing is committed for
  row \<open>k\<close>. The commit writes the changed state of every other row.
\<close>

theorem map_isolates_failed_row:
  assumes "k < length rows"
    and "\<forall>i<length rows. isl (snd (fn (rows ! i))) \<longleftrightarrow> i = k"
  shows "fst (dbmapper_map fn True (rows, None) None w)
           = map (\<lambda>entry. case snd (fn entry) of Inl err \<Rightarrow> None | Inr mapped \<Rightarrow> Some mapped) rows
         \<and> length (fst (dbmapper_map fn True (rows, None) None w)) = length rows
         \<and> fst (dbmapper_map fn True (rows, None) None w) ! k = None
         \<and> length (filter (\<lambda>y. y \<noteq> None) (fst (dbmapper_map fn True (rows, None) None w)))
             = length rows - 1
         \<and> fst (snd (dbmapper_map fn True (rows, None) None w)) = None
         \<and> count_list (trace (snd (snd (dbmapper_map fn True (rows, None) None w)))) Commit
             = count_list (trace w) Commit + 1
         \<and> fst (dbmapper_map fn True (rows, None) (Some (length rows)) w)
             = fst (dbmapper_map fn True (rows, None) None w)
         \<and> count_list (trace (snd (snd (dbmapper_map fn True (rows, None)
                                            (Some (length rows)) w)))) Commit
             = count_list (trace w) Commit
         \<and> Expunge k \<in> set (trace (snd (snd (dbmapper_map fn True (rows, None) None w))))
         \<and> (Load \<notin> set (fst (fn (rows ! k))) \<longrightarrow>
               committed (snd (snd (dbmapper_map fn True (rows, None) None w))) k = committed w k)
         \<and> (\<forall>i<length rows. i \<noteq> k \<longrightarrow>
               committed (snd (snd (dbmapper_map fn True (rows, None) None w))) i
                 = Some (entry_after (rows ! i) (fst (fn (rows ! i)))))"
proof -
  let ?g = "\<lambda>entry. case snd (fn entry) of Inl err \<Rightarrow> None | Inr mapped \<Rightarrow> Some mapped"
  let ?r = "dbmapper_map fn True (rows, None) None w"
  let ?p = "dbmapper_map fn True (rows, None) (Some (length rows)) w"
  let ?L = "snd (map_loop fn True 0 rows (session_new w))"
  have pos: "0 < length rows"
    using assms(1) by (cases rows) simp_all
  have y: "fst ?r = map ?g rows"
    by (simp add: dbmapper_map_drained map_to_end_yielded)
  have g: "\<And>i. i < length rows \<Longrightarrow> (?g (rows ! i) = None) \<longleftrightarrow> i = k"
    using assms(2) by (auto split: sum.splits)
  have len: "length (fst ?r) = length rows"
    by (simp add: y)
  have "map ?g rows ! k = ?g (rows ! k)"
    using assms(1) by (rule nth_map)
  also have "\<dots> = None"
    using g [OF assms(1)] by (simp only: simp_thms)
  finally have atk: "fst ?r ! k = None"
    by (simp only: y)
  have "\<And>i. i < length (map ?g rows) \<Longrightarrow> (map ?g rows ! i = None) \<longleftrightarrow> i = k"
    using g by (simp only: nth_map length_map)
  moreover have "k < length (map ?g rows)"
    using assms(1) by simp
  ultimately have "length (filter (\<lambda>y. y \<noteq> None) (map ?g rows)) = length (map ?g rows) - 1"
    by (rule all_but_one_present [rotated])
  then have cnt: "length (filter (\<lambda>y. y \<noteq> None) (fst ?r)) = length rows - 1"
    by (simp only: y length_map)
  have raised: "fst (snd ?r) = None"
    by (simp only: dbmapper_map_drained map_to_end_raised)
  have commits: "count_list (trace (snd (snd ?r))) Commit = count_list (trace w) Commit + 1"
    by (simp add: dbmapper_map_drained map_to_end_trace_completed count_commit_loop_events)
  have py: "fst ?p = fst ?r"
    by (simp add: dbmapper_map_all_values [OF pos] y map_loop_yielded)
  have "trace (snd (snd ?p)) = trace ?L"
    by (simp add: dbmapper_map_all_values [OF pos])
  then have pc: "count_list (trace (snd (snd ?p))) Commit = count_list (trace w) Commit"
    by (simp add: map_loop_trace session_new_def count_commit_loop_events)
  obtain err where err: "snd (fn (rows ! k)) = Inl err"
    using assms by (cases "snd (fn (rows ! k))") auto
  have "(k, rows ! k) \<in> set (zip [0..<length rows] rows)"
    using assms(1) by (auto simp: in_set_zip intro!: exI [of _ k])
  with err have expunged: "Expunge k \<in> set (trace (snd (snd ?r)))"
    by (force simp: dbmapper_map_drained map_to_end_trace_completed)
  have ak: "attached ?L k = None"
    using assms(1) err by (simp add: map_loop_attached)
  have fk: "Load \<notin> set (fst (fn (rows ! k))) \<longrightarrow> committed (snd (snd ?r)) k = committed w k"
  proof
    assume nl: "Load \<notin> set (fst (fn (rows ! k)))"
    have "flushed ?L k = flushed (session_new w) k"
    proof (rule map_loop_flushed)
      show "attached (session_new w) k = None"
        by (simp add: session_new_def)
      show "k < 0 \<or> 0 + length rows \<le> k
            \<or> (isl (snd (fn (rows ! (k - 0)))) \<and> Load \<notin> set (fst (fn (rows ! (k - 0)))))"
        using err nl by simp
    qed
    then have "flushed ?L k = None"
      by (simp add: session_new_def)
    with ak show "committed (snd (snd ?r)) k = committed w k"
      by (simp add: dbmapper_map_drained map_to_end_committed_completed map_add_def)
  qed
  have fi: "\<forall>i<length rows. i \<noteq> k \<longrightarrow>
              committed (snd (snd ?r)) i = Some (entry_after (rows ! i) (fst (fn (rows ! i))))"
  proof (intro allI impI)
    fix i assume i: "i < length rows" "i \<noteq> k"
    with assms(2) have "\<not> isl (snd (fn (rows ! i)))" by simp
    then obtain mapped where "snd (fn (rows ! i)) = Inr mapped"
      by (cases "snd (fn (rows ! i))") auto
    with i have "attached ?L i = Some (entry_after (rows ! i) (fst (fn (rows ! i))))"
      by (simp add: map_loop_attached)
    then show "committed (snd (snd ?r)) i = Some (entry_after (rows ! i) (fst (fn (rows ! i))))"
      by (simp add: dbmapper_map_drained map_to_end_committed_completed map_add_def)
  qed
  from y len atk cnt raised commits py pc expunged fk fi show ?thesis by (intro conjI)
qed

theorem map_isolates_failed_row_witness:
  "length (filter (\<lambda>y. y \<noteq> None)
             (fst (dbmapper_map restock True ([widget_id_only, widget], None) None new_world))) = 1
   \<and> length (fst (dbmapper_map restock True ([widget_id_only, widget], None) None new_world)) = 2
   \<and> count_list (trace (snd (snd (dbmapper_map restock True
                                      ([widget_id_only, widget], None) None new_world)))) Commit = 1
   \<and> count_list (trace (snd (snd (dbmapper_map restock True
                                      ([widget_id_only, widget], None) (Some 2) new_world)))) Commit
       = 0
   \<and> committed (snd (snd (dbmapper_map restock True
                             ([widget_id_only, widget], None) None new_world))) 0
       = None
   \<and> committed (snd (snd (dbmapper_map restock True
                             ([widget_id_only, widget], None) None new_world))) 1
       = Some (entry_after widget (fst (restock widget)))"
proof -
  let ?rows = "[widget_id_only, widget]"
  let ?r = "dbmapper_map restock True (?rows, None) None new_world"
  let ?p = "dbmapper_map restock True (?rows, None) (Some 2) new_world"
  have h1: "0 < length ?rows"
    by simp
  have h2: "\<forall>i<length ?rows. isl (snd (restock (?rows ! i))) \<longleftrightarrow> i = 0"
    by (auto simp: less_Suc_eq restock_widget restock_widget_id_only)
  note th = map_isolates_failed_row [OF h1 h2, of new_world]
  have a: "length (filter (\<lambda>y. y \<noteq> None) (fst ?r)) = length ?rows - 1"
    using th by (elim conjE)
  have b: "length (fst ?r) = length ?rows"
    using th by (elim conjE)
  have c: "count_list (trace (snd (snd ?r))) Commit
             = count_list (trace (new_world :: int world)) Commit + 1"
    using th by (elim conjE)
  have "count_list (trace (snd (snd (dbmapper_map restock True (?rows, None)
                                       (Some (length ?rows)) new_world)))) Commit
             = count_list (trace (new_world :: int world)) Commit"
    using th by (elim conjE)
  moreover have two: "length ?rows = 2"
    by simp
  ultimately have c': "count_list (trace (snd (snd ?p))) Commit
                   = count_list (trace (new_world :: int world)) Commit"
    by (simp only:)
  have "Load \<notin> set (fst (restock (?rows ! 0))) \<longrightarrow>
          committed (snd (snd ?r)) 0 = committed (new_world :: int world) 0"
    using th by (elim conjE)
  then have d: "committed (snd (snd ?r)) 0 = committed (new_world :: int world) 0"
    by (simp add: restock_widget_id_only_steps)
  have "\<forall>i<length ?rows. i \<noteq> 0 \<longrightarrow>
          committed (snd (snd ?r)) i = Some (entry_after (?rows ! i) (fst (restock (?rows ! i))))"
    using th by (elim conjE)
  then have e: "committed (snd (snd ?r)) 1 = Some (entry_after widget (fst (restock widget)))"
    by simp
  from a b c c' d e show ?thesis
    by (simp add: new_world_def)
qed

text \<open>
  The claim C2 as stated fails in three places. It counts \<open>N - 1\<close> yielded values: of
  two rows, the first of which makes the transform raise, the mapper yields two values,
  \<^verbatim>\<open>None\<close> and the result for the second row. It has one commit in every pass: a
  consumer that takes the two values and does not ask again leaves the generator suspended
  before the commit, and the only events are the log entry and the expunge. It has the
  changes of the failed row never flushed: when the transform changes the entry, makes the
  session run a query and then raises, the session has flushed the change before the row
  is expunged, and the commit makes it permanent.
\<close>

theorem failed_row_yields_none:
  "map (\<lambda>y. y = None)
     (fst (dbmapper_map restock True ([widget_id_only, widget], None) None new_world))
     = [True, False]
   \<and> trace (snd (snd (dbmapper_map restock True ([widget_id_only, widget], None) (Some 2)
                         new_world)))
     = [LogError (Exception ''qty is None''), Expunge 0]
   \<and> map_option (\<lambda>entry. getattr entry ''name'')
       (committed (snd (snd (dbmapper_map restock_after_lookup True
                               ([widget_id_only, widget], None) None new_world))) 0)
     = Some (Some 0)"
proof (intro conjI)
  show "map (\<lambda>y. y = None)
     (fst (dbmapper_map restock True ([widget_id_only, widget], None) None new_world))
     = [True, False]"
    by (simp add: dbmapper_map_drained map_to_end_yielded restock_widget restock_widget_id_only)
  have "0 < length [widget_id_only, widget]"
    by simp
  then have "dbmapper_map restock True ([widget_id_only, widget], None)
               (Some (length [widget_id_only, widget])) new_world
           = (fst (map_loop restock True 0 [widget_id_only, widget] (session_new new_world)), None,
              snd (map_loop restock True 0 [widget_id_only, widget] (session_new new_world)))"
    by (rule dbmapper_map_all_values)
  moreover have "length [widget_id_only, widget] = 2"
    by simp
  ultimately have "trace (snd (snd (dbmapper_map restock True ([widget_id_only, widget], None)
                                      (Some 2) new_world)))
     = trace (snd (map_loop restock True 0 [widget_id_only, widget] (session_new new_world)))"
    by (simp only: snd_conv)
  also have "\<dots> = [LogError (Exception ''qty is None''), Expunge 0]"
    by (simp only: map_loop_trace)
       (simp add: session_new_def new_world_def restock_widget restock_widget_id_only upt_rec)
  finally show "trace (snd (snd (dbmapper_map restock True ([widget_id_only, widget], None) (Some 2)
                         new_world)))
     = [LogError (Exception ''qty is None''), Expunge 0]" .
  let ?s1 = "snd (error_handler restock_after_lookup 0 widget_id_only
                   (query_next 0 widget_id_only (session_new new_world)))"
  let ?L = "snd (map_loop restock_after_lookup True 0 [widget_id_only, widget]
                   (session_new new_world))"
  have L: "?L = snd (map_loop restock_after_lookup True (Suc 0) [widget] ?s1)"
    by (simp only: map_loop_Cons snd_conv)
  have a0: "attached ?L 0 = None"
    by (simp only: map_loop_attached) (simp add: restock_after_lookup_widget_id_only)
  have "flushed ?L 0 = flushed ?s1 0"
    unfolding L
  proof (rule map_loop_flushed)
    show "attached ?s1 0 = None"
      by (simp only: lookup_attached_after_failed_row)
    show "0 < Suc 0 \<or> Suc 0 + length [widget] \<le> 0
          \<or> (isl (snd (restock_after_lookup ([widget] ! (0 - Suc 0))))
              \<and> Load \<notin> set (fst (restock_after_lookup ([widget] ! (0 - Suc 0)))))"
      by simp
  qed
  then have f0: "flushed ?L 0
                   = Some (widget_id_only\<lparr>getattr := (getattr widget_id_only)(''name'' \<mapsto> 0)\<rparr>)"
    by (simp only: lookup_flushes_failed_row)
  have "committed (snd (snd (dbmapper_map restock_after_lookup True
                               ([widget_id_only, widget], None) None new_world))) 0
          = Some (widget_id_only\<lparr>getattr := (getattr widget_id_only)(''name'' \<mapsto> 0)\<rparr>)"
    using a0 f0
    by (simp add: dbmapper_map_drained map_to_end_committed_completed map_add_def)
  then show "map_option (\<lambda>entry. getattr entry ''name'')
       (committed (snd (snd (dbmapper_map restock_after_lookup True
                               ([widget_id_only, widget], None) None new_world))) 0)
     = Some (Some 0)"
    by simp
qed

end
